theory Spec2Isabelle
  imports Complex_Main "HOL-Library.Multiset"
begin

section \<open>Numeric types of the Kinetic Monte Carlo core\<close>

text \<open>
  The KMC classes are templates over an integer type \<open>T\<close> (populations, firing counts)
  and use the floating-point type \<open>Real\<close> for rates, propensities and time. Here \<open>T\<close> is
  \<open>long long\<close> and \<open>Real\<close> is \<open>double\<close>; the limits the code reads from
  \<open>std::numeric_limits\<close> are constants.

  A value of \<open>T\<close> is an \<open>int\<close> between \<open>T_min\<close> and \<open>T_max\<close>. Where the code
  multiplies or adds values of \<open>T\<close> that nothing but the type bounds (the factorial of
  the constructor, the update of \<open>advanceState\<close>, the square of a state change in the
  time step) the result is wrapped modulo \<open>2^64\<close> into that range, which is what the
  compiled code does when \<open>T\<close> overflows. The remaining operations on \<open>T\<close> (a
  decrement, a difference from zero, a count of list entries) are exact, and the
  theorems about them take the range as a hypothesis.

  A value of \<open>Real\<close> is a \<open>real\<close>, and rounding is not modelled. Where a \<open>Real\<close> can
  become an infinity or a NaN (a quotient whose divisor may be zero, a product that may
  exceed the largest \<open>Real\<close>) the value is a \<open>Real_ext\<close>, defined with the solver.

  \<open>CH_assert\<close> is a macro of Chombo, whose definition is not among the sources: it
  checks its condition unless \<open>NDEBUG\<close> is defined, and is empty otherwise. Whether
  \<open>NDEBUG\<close> is defined is an argument, \<open>NDEBUG\<close>, of
  \<open>KMCDualStateReaction::advanceState\<close>, which asserts that the state is valid before
  and after the update; the solver calls it with states that need not be. An index
  beyond the end of a vector is an error where the code writes through it, in either
  build. The other assertions are conditions on the arguments and appear as hypotheses
  of the theorems they bear on: the index bounds where the code reads a population
  (the predicates \<open>sanityCheck\<close> and \<open>inRange\<close>), a list of reactants that is not
  empty in the dual-state constructor, and as many propensities as reactions in
  \<open>stepSSA\<close> and \<open>getNonCriticalTimeStep\<close>. (\<open>stepExplicitEuler\<close> asserts a positive
  \<open>a_dt\<close>, which it has wherever a step is evaluated below.)
\<close>

definition T_max :: int where
  "T_max = 9223372036854775807"

definition T_min :: int where
  "T_min = - 9223372036854775808"

definition T_wrap :: "int \<Rightarrow> int" where
  "T_wrap x = (x + 9223372036854775808) mod 18446744073709551616 - 9223372036854775808"

text \<open>\<open>T_range x\<close>: the integer \<open>x\<close> is a value of \<open>T\<close>.\<close>

definition T_range :: "int \<Rightarrow> bool" where
  "T_range x = (T_min \<le> x \<and> x \<le> T_max)"

definition Real_max :: real where
  "Real_max = (2 - 1 / 2 ^ 52) * 2 ^ 1023"

definition Real_min :: real where
  "Real_min = 1 / 2 ^ 1022"

text \<open>
  Ways a call can end other than by returning: \<open>MayDay::Error\<close>; a \<open>CH_assert\<close> that
  fails; an index beyond the end of a vector; and a time step that is an infinity or a
  NaN where the model of the driver needs a number.
\<close>

datatype error = MayDay_Error | AssertionFailed | OutOfRange | NonFinite

text \<open>Division of \<open>T\<close> in C++ truncates towards zero.\<close>

definition T_div :: "int \<Rightarrow> int \<Rightarrow> int" where
  "T_div a b = sgn a * sgn b * (\<bar>a\<bar> div \<bar>b\<bar>)"

text \<open>\<open>llround\<close>: the nearest integer, halfway cases away from zero.\<close>

definition llround :: "real \<Rightarrow> int" where
  "llround x = (if 0 \<le> x then \<lfloor>x + 1 / 2\<rfloor> else \<lceil>x - 1 / 2\<rceil>)"

section \<open>\<open>std::map\<close> with \<open>size_t\<close> keys\<close>

text \<open>
  A \<open>std::map<size_t, V>\<close> is an association list kept in increasing key order, which is
  the order a range-for visits it in. \<open>map_of\<close> is \<open>find\<close>; \<open>map_emplace\<close> adds a key
  that is absent (and leaves a present one alone); \<open>map_modify\<close> changes the value
  stored under a present key, as \<open>m[k]++\<close> and \<open>m[k]--\<close> do.
\<close>

type_synonym 'v std_map = "(nat \<times> 'v) list"

fun map_emplace :: "nat \<Rightarrow> 'v \<Rightarrow> 'v std_map \<Rightarrow> 'v std_map" where
  "map_emplace k v [] = [(k, v)]"
| "map_emplace k v ((k', v') # m) =
     (if k < k' then (k, v) # (k', v') # m
      else if k = k' then (k', v') # m
      else (k', v') # map_emplace k v m)"

fun map_modify :: "nat \<Rightarrow> ('v \<Rightarrow> 'v) \<Rightarrow> 'v std_map \<Rightarrow> 'v std_map" where
  "map_modify k f [] = []"
| "map_modify k f ((k', v') # m) =
     (if k = k' then (k', f v') # m else (k', v') # map_modify k f m)"

text \<open>
  One pass of the counting loops of \<open>computeStateChanges\<close>:
  \<^verbatim>\<open>if (m.find(r) == m.end()) m.emplace(r, d); else m[r] += d;\<close>
  with \<open>d = -1\<close> for a consumed species and \<open>d = +1\<close> for a produced one (and for the
  reactant multiplicities).
\<close>

definition map_count :: "'v::plus \<Rightarrow> nat \<Rightarrow> 'v std_map \<Rightarrow> 'v std_map" where
  "map_count d k m =
     (if map_of m k = None then map_emplace k d m else map_modify k (\<lambda>v. v + d) m)"

section \<open>States\<close>

subsection \<open>\<open>KMCDualState\<close>\<close>

text \<open>
  The two population vectors. \<open>define\<close> sizes them to \<open>m_numReactiveSpecies\<close> and
  \<open>m_numNonReactiveSpecies\<close>, which are therefore the lengths of the lists.
\<close>

record KMCDualState =
  m_reactiveState :: "int list"
  m_nonReactiveState :: "int list"

text \<open>
  The validity loops: \<open>isValid\<close> starts true and is set to false (leaving the loop) at
  the first negative entry; the second loop runs whatever the first one found.
\<close>

fun isValid_loop :: "int list \<Rightarrow> bool \<Rightarrow> bool" where
  "isValid_loop [] isValid = isValid"
| "isValid_loop (p # ps) isValid = (if p < 0 then False else isValid_loop ps isValid)"

definition KMCDualState_isValidState :: "KMCDualState \<Rightarrow> bool" where
  "KMCDualState_isValidState s =
     isValid_loop (m_nonReactiveState s) (isValid_loop (m_reactiveState s) True)"

definition KMCDualState_linearOut :: "KMCDualState \<Rightarrow> int list" where
  "KMCDualState_linearOut s = m_reactiveState s @ m_nonReactiveState s"

definition KMCDualState_linearIn :: "KMCDualState \<Rightarrow> int list \<Rightarrow> KMCDualState" where
  "KMCDualState_linearIn s a =
     (let numReactive = length (m_reactiveState s);
          numNonReactive = length (m_nonReactiveState s)
      in s\<lparr>m_reactiveState := map (\<lambda>i. a ! i) [0..<numReactive],
            m_nonReactiveState := map (\<lambda>i. a ! (numReactive + i)) [0..<numNonReactive]\<rparr>)"

subsection \<open>\<open>KMCSingleState\<close>\<close>

record KMCSingleState =
  m_state :: "int list"

definition KMCSingleState_isValidState :: "KMCSingleState \<Rightarrow> bool" where
  "KMCSingleState_isValidState s = isValid_loop (m_state s) True"

definition KMCSingleState_linearOut :: "KMCSingleState \<Rightarrow> int list" where
  "KMCSingleState_linearOut s = m_state s"

definition KMCSingleState_linearIn :: "KMCSingleState \<Rightarrow> int list \<Rightarrow> KMCSingleState" where
  "KMCSingleState_linearIn s a = s\<lparr>m_state := a\<rparr>"

section \<open>Reactions\<close>

text \<open>
  The factorial of the constructor, computed in \<open>T\<close>:
  \<^verbatim>\<open>T fac = 1; for (T i = 2; i <= N; i++) fac *= i;\<close>
  The product wraps from \<open>N = 21\<close> on (\<open>21! > T_max\<close>). The counter \<open>i\<close> stays
  within \<open>T\<close> for every \<open>N\<close> below \<open>T_max\<close>; \<open>N\<close> is the multiplicity of a species in
  the reactant list.
\<close>

function factorial_loop :: "int \<Rightarrow> int \<Rightarrow> int \<Rightarrow> int" where
  "factorial_loop N i fac =
     (if i \<le> N then factorial_loop N (i + 1) (T_wrap (fac * i)) else fac)"
  by pat_completeness auto
termination
  by (relation "measure (\<lambda>(N, i, fac). nat (N + 1 - i))") auto

declare factorial_loop.simps [simp del]

definition factorial :: "int \<Rightarrow> int" where
  "factorial N = factorial_loop N 2 1"

text \<open>
  The loops shared by both reaction classes, over a population vector.
  \<open>propensity_loop\<close>: \<^verbatim>\<open>for (r : reactants) { A *= x[r]; x[r]--; }\<close> on a copy of the
  populations. \<open>critical_loop\<close>: \<^verbatim>\<open>if (nu < 0) Lj = min(Lj, x[rI] / abs(nu));\<close> over the
  state-change map. \<open>advance_loop\<close>: \<^verbatim>\<open>x[s.first] += numReactions * s.second;\<close> over
  the state-change map, the product and the sum in \<open>T\<close>; it writes, so an index beyond
  the end of the vector ends it.
\<close>

fun propensity_loop :: "nat list \<Rightarrow> real \<Rightarrow> int list \<Rightarrow> real" where
  "propensity_loop [] A x = A"
| "propensity_loop (r # rs) A x =
     propensity_loop rs (A * real_of_int (x ! r)) (x[r := x ! r - 1])"

fun critical_loop :: "int std_map \<Rightarrow> int list \<Rightarrow> int \<Rightarrow> int" where
  "critical_loop [] x Lj = Lj"
| "critical_loop ((rI, nuIJ) # m) x Lj =
     critical_loop m x (if nuIJ < 0 then min Lj (T_div (x ! rI) \<bar>nuIJ\<bar>) else Lj)"

fun advance_loop :: "int std_map \<Rightarrow> int \<Rightarrow> int list \<Rightarrow> error + int list" where
  "advance_loop [] n x = Inr x"
| "advance_loop ((i, nu) # m) n x =
     (if i < length x
      then advance_loop m n (x[i := T_wrap (x ! i + T_wrap (n * nu))])
      else Inl OutOfRange)"

text \<open>
  The propensity factor: \<^verbatim>\<open>for (rn : reactantNumbers) f *= 1.0 / factorial(rn.second);\<close>
  From the multiplicity 66 on the wrapped factorial is 0 and the quotient of the code an
  infinity, which \<open>m_propensityFactor\<close>, a \<open>real\<close>, does not hold: what is proved of
  the factor is proved for multiplicities up to 20, where the factorial is exact.
\<close>

fun propensityFactor_loop :: "nat std_map \<Rightarrow> real \<Rightarrow> real" where
  "propensityFactor_loop [] f = f"
| "propensityFactor_loop ((r, k) # m) f =
     propensityFactor_loop m (f * (1 / real_of_int (factorial (int k))))"

subsection \<open>\<open>KMCDualStateReaction\<close>\<close>

record KMCDualStateReaction =
  m_lhsReactives :: "nat list"
  m_rhsReactives :: "nat list"
  m_rhsNonReactives :: "nat list"
  m_rate :: real
  m_propensityFactor :: real
  m_reactiveStateChange :: "int std_map"
  m_nonReactiveStateChange :: "int std_map"

definition KMCDualStateReaction_computeStateChanges ::
  "KMCDualStateReaction \<Rightarrow> KMCDualStateReaction" where
  "KMCDualStateReaction_computeStateChanges R =
     (let consumed = fold (map_count (- 1)) (m_lhsReactives R) (m_reactiveStateChange R);
          produced = fold (map_count 1) (m_rhsReactives R) consumed;
          photons = fold (map_count 1) (m_rhsNonReactives R) (m_nonReactiveStateChange R);
          reactantNumbers = fold (map_count (1::nat)) (m_lhsReactives R) []
      in R\<lparr>m_reactiveStateChange := produced,
            m_nonReactiveStateChange := photons,
            m_propensityFactor := propensityFactor_loop reactantNumbers 1\<rparr>)"

text \<open>
  The constructor stores the three lists and computes the state changes from empty maps.
  It does not initialise \<open>m_rate\<close>, which the caller sets through \<open>rate()\<close>; the
  model takes the rate as an argument. (It asserts that the list of reactants is not
  empty.)
\<close>

definition KMCDualStateReaction_new ::
  "nat list \<Rightarrow> nat list \<Rightarrow> nat list \<Rightarrow> real \<Rightarrow> KMCDualStateReaction" where
  "KMCDualStateReaction_new a_lhsReactives a_rhsReactives a_rhsNonReactives a_rate =
     KMCDualStateReaction_computeStateChanges
       \<lparr>m_lhsReactives = a_lhsReactives, m_rhsReactives = a_rhsReactives,
        m_rhsNonReactives = a_rhsNonReactives, m_rate = a_rate, m_propensityFactor = 1,
        m_reactiveStateChange = [], m_nonReactiveStateChange = []\<rparr>"

definition KMCDualStateReaction_sanityCheck ::
  "KMCDualStateReaction \<Rightarrow> KMCDualState \<Rightarrow> bool" where
  "KMCDualStateReaction_sanityCheck R s =
     (list_all (\<lambda>idx. idx < length (m_reactiveState s)) (m_lhsReactives R) \<and>
      list_all (\<lambda>idx. idx < length (m_reactiveState s)) (m_rhsReactives R) \<and>
      list_all (\<lambda>idx. idx < length (m_nonReactiveState s)) (m_rhsNonReactives R))"

definition KMCDualStateReaction_population ::
  "KMCDualStateReaction \<Rightarrow> nat \<Rightarrow> KMCDualState \<Rightarrow> int" where
  "KMCDualStateReaction_population R a_reactant s = m_reactiveState s ! a_reactant"

definition KMCDualStateReaction_propensity ::
  "KMCDualStateReaction \<Rightarrow> KMCDualState \<Rightarrow> real" where
  "KMCDualStateReaction_propensity R s =
     propensity_loop (m_lhsReactives R) (m_rate R * m_propensityFactor R) (m_reactiveState s)"

definition KMCDualStateReaction_computeCriticalNumberOfReactions ::
  "KMCDualStateReaction \<Rightarrow> KMCDualState \<Rightarrow> int" where
  "KMCDualStateReaction_computeCriticalNumberOfReactions R s =
     critical_loop (m_reactiveStateChange R) (m_reactiveState s) T_max"

definition KMCDualStateReaction_getReactants :: "KMCDualStateReaction \<Rightarrow> nat list" where
  "KMCDualStateReaction_getReactants R = m_lhsReactives R"

definition KMCDualStateReaction_getStateChange :: "KMCDualStateReaction \<Rightarrow> nat \<Rightarrow> int" where
  "KMCDualStateReaction_getStateChange R a_particleReactant =
     (case map_of (m_reactiveStateChange R) a_particleReactant of
        None \<Rightarrow> 0
      | Some nuIJ \<Rightarrow> nuIJ)"

text \<open>
  \<open>advanceState\<close>. Unless \<open>NDEBUG\<close> is defined it runs \<open>sanityCheck\<close> and asserts
  \<open>isValidState\<close> before the two loops, and asserts \<open>isValidState\<close> again after them.
\<close>

definition KMCDualStateReaction_advanceState ::
  "bool \<Rightarrow> KMCDualStateReaction \<Rightarrow> KMCDualState \<Rightarrow> int \<Rightarrow> error + KMCDualState" where
  "KMCDualStateReaction_advanceState NDEBUG R s a_numReactions =
     (if \<not> NDEBUG \<and> \<not> KMCDualStateReaction_sanityCheck R s then Inl AssertionFailed
      else if \<not> NDEBUG \<and> \<not> KMCDualState_isValidState s then Inl AssertionFailed
      else case advance_loop (m_reactiveStateChange R) a_numReactions (m_reactiveState s) of
             Inl e \<Rightarrow> Inl e
           | Inr reactiveState \<Rightarrow>
               (case advance_loop (m_nonReactiveStateChange R) a_numReactions
                       (m_nonReactiveState s) of
                  Inl e \<Rightarrow> Inl e
                | Inr photonState \<Rightarrow>
                    (let s' = s\<lparr>m_reactiveState := reactiveState,
                                m_nonReactiveState := photonState\<rparr>
                     in if \<not> NDEBUG \<and> \<not> KMCDualState_isValidState s'
                        then Inl AssertionFailed else Inr s')))"

subsection \<open>\<open>KMCSingleStateReaction\<close>\<close>

record KMCSingleStateReaction =
  m_reactants :: "nat list"
  m_products :: "nat list"
  m_rate1 :: real
  m_propensityFactor1 :: real
  m_stateChange :: "int std_map"

text \<open>
  Modelled from the spec: the member \<open>factorial\<close> this class calls is declared in its
  header, which is not part of the sources at hand; the factor is the product of \<open>1/k!\<close>
  over the reactant multiplicities, as in the dual-state class.
\<close>

definition KMCSingleStateReaction_computeStateChanges ::
  "KMCSingleStateReaction \<Rightarrow> KMCSingleStateReaction" where
  "KMCSingleStateReaction_computeStateChanges R =
     (let consumed = fold (map_count (- 1)) (m_reactants R) (m_stateChange R);
          produced = fold (map_count 1) (m_products R) consumed;
          reactantNumbers = fold (map_count (1::nat)) (m_reactants R) []
      in R\<lparr>m_stateChange := produced,
            m_propensityFactor1 := propensityFactor_loop reactantNumbers 1\<rparr>)"

definition KMCSingleStateReaction_new ::
  "nat list \<Rightarrow> nat list \<Rightarrow> real \<Rightarrow> KMCSingleStateReaction" where
  "KMCSingleStateReaction_new a_reactants a_products a_rate =
     KMCSingleStateReaction_computeStateChanges
       \<lparr>m_reactants = a_reactants, m_products = a_products, m_rate1 = a_rate,
        m_propensityFactor1 = 1, m_stateChange = []\<rparr>"

text \<open>
  \<open>KMCSingleState::operator[]\<close> asserts that the index is below the size; \<open>inRange\<close>
  says so for every species the reaction names.
\<close>

definition KMCSingleStateReaction_inRange ::
  "KMCSingleStateReaction \<Rightarrow> KMCSingleState \<Rightarrow> bool" where
  "KMCSingleStateReaction_inRange R s =
     (list_all (\<lambda>idx. idx < length (m_state s)) (m_reactants R) \<and>
      list_all (\<lambda>idx. idx < length (m_state s)) (m_products R))"

definition KMCSingleStateReaction_population ::
  "KMCSingleStateReaction \<Rightarrow> nat \<Rightarrow> KMCSingleState \<Rightarrow> int" where
  "KMCSingleStateReaction_population R a_reactant s = m_state s ! a_reactant"

definition KMCSingleStateReaction_propensity ::
  "KMCSingleStateReaction \<Rightarrow> KMCSingleState \<Rightarrow> real" where
  "KMCSingleStateReaction_propensity R s =
     propensity_loop (m_reactants R) (m_rate1 R * m_propensityFactor1 R) (m_state s)"

definition KMCSingleStateReaction_computeCriticalNumberOfReactions ::
  "KMCSingleStateReaction \<Rightarrow> KMCSingleState \<Rightarrow> int" where
  "KMCSingleStateReaction_computeCriticalNumberOfReactions R s =
     critical_loop (m_stateChange R) (m_state s) T_max"

definition KMCSingleStateReaction_getReactants :: "KMCSingleStateReaction \<Rightarrow> nat list" where
  "KMCSingleStateReaction_getReactants R = m_reactants R"

definition KMCSingleStateReaction_getStateChange ::
  "KMCSingleStateReaction \<Rightarrow> nat \<Rightarrow> int" where
  "KMCSingleStateReaction_getStateChange R a_particleReactant =
     (case map_of (m_stateChange R) a_particleReactant of
        None \<Rightarrow> 0
      | Some nuIJ \<Rightarrow> nuIJ)"

text \<open>\<open>advanceState\<close> asserts nothing but the index bound of \<open>operator[]\<close>.\<close>

definition KMCSingleStateReaction_advanceState ::
  "KMCSingleStateReaction \<Rightarrow> KMCSingleState \<Rightarrow> int \<Rightarrow> error + KMCSingleState" where
  "KMCSingleStateReaction_advanceState R s a_numReactions =
     (case advance_loop (m_stateChange R) a_numReactions (m_state s) of
        Inl e \<Rightarrow> Inl e
      | Inr state \<Rightarrow> Inr (s\<lparr>m_state := state\<rparr>))"

subsection \<open>Reactions as the constructors leave them\<close>

text \<open>
  A reaction object is built by its constructor and afterwards changes only through
  \<open>rate()\<close>: it is what the constructor makes of its own lists, with the rate it has now.
\<close>

definition KMCDualStateReaction_constructed :: "KMCDualStateReaction \<Rightarrow> bool" where
  "KMCDualStateReaction_constructed R =
     (R = KMCDualStateReaction_new (m_lhsReactives R) (m_rhsReactives R)
            (m_rhsNonReactives R) (m_rate R))"

definition KMCSingleStateReaction_constructed :: "KMCSingleStateReaction \<Rightarrow> bool" where
  "KMCSingleStateReaction_constructed R =
     (R = KMCSingleStateReaction_new (m_reactants R) (m_products R) (m_rate1 R))"

section \<open>The solver\<close>

subsection \<open>Template parameters, random numbers, errors\<close>

text \<open>
  \<open>KMCSolver<R, State, T>\<close> calls its reaction type \<open>R\<close> and its state type \<open>State\<close>
  through the member functions below. An instantiation of the template is a record
  holding them; every solver function takes that record as its first argument. The
  dual-state instantiation is that of a build, with or without \<open>NDEBUG\<close>. The last
  field is not a function the solver calls: \<open>inRange R s\<close> is the condition the
  assertions of the two classes put on the species indices of the reaction \<open>R\<close> in the
  state \<open>s\<close> (\<open>sanityCheck\<close> for the dual state, the bound \<open>operator[]\<close> asserts for
  the single state), under which the solver reads populations.
\<close>

record ('R, 'S) KMCTypes =
  propensity :: "'R \<Rightarrow> 'S \<Rightarrow> real"
  computeCriticalNumberOfReactions :: "'R \<Rightarrow> 'S \<Rightarrow> int"
  getReactants :: "'R \<Rightarrow> nat list"
  population :: "'R \<Rightarrow> nat \<Rightarrow> 'S \<Rightarrow> int"
  getStateChange :: "'R \<Rightarrow> nat \<Rightarrow> int"
  advanceState :: "'R \<Rightarrow> 'S \<Rightarrow> int \<Rightarrow> error + 'S"
  isValidState :: "'S \<Rightarrow> bool"
  linearOut :: "'S \<Rightarrow> int list"
  linearIn :: "'S \<Rightarrow> int list \<Rightarrow> 'S"
  inRange :: "'R \<Rightarrow> 'S \<Rightarrow> bool"

definition KMCDual :: "bool \<Rightarrow> (KMCDualStateReaction, KMCDualState) KMCTypes" where
  "KMCDual NDEBUG =
     \<lparr>propensity = KMCDualStateReaction_propensity,
      computeCriticalNumberOfReactions = KMCDualStateReaction_computeCriticalNumberOfReactions,
      getReactants = KMCDualStateReaction_getReactants,
      population = KMCDualStateReaction_population,
      getStateChange = KMCDualStateReaction_getStateChange,
      advanceState = KMCDualStateReaction_advanceState NDEBUG,
      isValidState = KMCDualState_isValidState,
      linearOut = KMCDualState_linearOut,
      linearIn = KMCDualState_linearIn,
      inRange = KMCDualStateReaction_sanityCheck\<rparr>"

definition KMCSingle :: "(KMCSingleStateReaction, KMCSingleState) KMCTypes" where
  "KMCSingle =
     \<lparr>propensity = KMCSingleStateReaction_propensity,
      computeCriticalNumberOfReactions = KMCSingleStateReaction_computeCriticalNumberOfReactions,
      getReactants = KMCSingleStateReaction_getReactants,
      population = KMCSingleStateReaction_population,
      getStateChange = KMCSingleStateReaction_getStateChange,
      advanceState = KMCSingleStateReaction_advanceState,
      isValidState = KMCSingleState_isValidState,
      linearOut = KMCSingleState_linearOut,
      linearIn = KMCSingleState_linearIn,
      inRange = KMCSingleStateReaction_inRange\<rparr>"

text \<open>The members of the solver: the reaction list and the six parameters.\<close>

record 'R KMCSolver =
  m_reactions :: "'R list"
  m_Ncrit :: int
  m_numSSA :: int
  m_maxIter :: int
  m_eps :: real
  m_SSAlim :: real
  m_exitTol :: real

definition setSolverParameters ::
  "'R KMCSolver \<Rightarrow> int \<Rightarrow> int \<Rightarrow> int \<Rightarrow> real \<Rightarrow> real \<Rightarrow> real \<Rightarrow> 'R KMCSolver" where
  "setSolverParameters S a_Ncrit a_numSSA a_maxIter a_eps a_SSAlim a_exitTol =
     S\<lparr>m_Ncrit := a_Ncrit, m_numSSA := a_numSSA, m_maxIter := a_maxIter,
       m_eps := a_eps, m_SSAlim := a_SSAlim, m_exitTol := a_exitTol\<rparr>"

definition KMCSolver_define :: "'R list \<Rightarrow> 'R KMCSolver" where
  "KMCSolver_define a_reactions =
     \<lparr>m_reactions = a_reactions, m_Ncrit = 0, m_numSSA = 0, m_maxIter = 100,
      m_eps = Real_max, m_SSAlim = 0, m_exitTol = 1 / 10 ^ 6\<rparr>"

text \<open>
  Modelled from the spec: the class \<open>Random\<close> (its header is not among the sources) is
  the process-wide source of uniform reals and Poisson variates. The model is an oracle:
  \<open>uniformReal01 k\<close> is the value the \<open>k\<close>-th call of \<open>getUniformReal01\<close> returns and
  \<open>poisson k mean\<close> the value the \<open>k\<close>-th call of \<open>getPoisson\<close> returns when asked
  for that mean; the two counters are the state of the generator.
\<close>

record Random =
  uniformReal01 :: "nat \<Rightarrow> real"
  poisson :: "nat \<Rightarrow> real \<Rightarrow> int"
  numUniform :: nat
  numPoisson :: nat

definition getUniformReal01 :: "Random \<Rightarrow> real \<times> Random" where
  "getUniformReal01 rng =
     (uniformReal01 rng (numUniform rng), rng\<lparr>numUniform := Suc (numUniform rng)\<rparr>)"

definition getPoisson :: "real \<Rightarrow> Random \<Rightarrow> int \<times> Random" where
  "getPoisson mean rng =
     (poisson rng (numPoisson rng) mean, rng\<lparr>numPoisson := Suc (numPoisson rng)\<rparr>)"

text \<open>
  A quotient of two \<open>Real\<close>s whose divisor may be zero is an IEEE value: dividing by
  zero gives an infinity (or a NaN for \<open>0/0\<close>), and every comparison with a NaN is
  false. \<open>std_min\<close> is \<open>std::min(a, b)\<close>, that is \<open>(b < a) ? b : a\<close>, and \<open>std_max\<close>
  is \<open>std::max(a, b)\<close>, that is \<open>(a < b) ? b : a\<close>.
\<close>

datatype Real_ext = Finite real | PlusInf | MinusInf | NaN

definition IEEE_div :: "real \<Rightarrow> real \<Rightarrow> Real_ext" where
  "IEEE_div a b =
     (if b \<noteq> 0 then Finite (a / b)
      else if 0 < a then PlusInf else if a < 0 then MinusInf else NaN)"

fun ext_less :: "Real_ext \<Rightarrow> Real_ext \<Rightarrow> bool" where
  "ext_less NaN b = False"
| "ext_less a NaN = False"
| "ext_less (Finite a) (Finite b) = (a < b)"
| "ext_less (Finite a) PlusInf = True"
| "ext_less (Finite a) MinusInf = False"
| "ext_less PlusInf b = False"
| "ext_less MinusInf MinusInf = False"
| "ext_less MinusInf b = True"

fun ext_add :: "real \<Rightarrow> Real_ext \<Rightarrow> Real_ext" where
  "ext_add a (Finite b) = Finite (a + b)"
| "ext_add a b = b"

definition std_min :: "Real_ext \<Rightarrow> Real_ext \<Rightarrow> Real_ext" where
  "std_min a b = (if ext_less b a then b else a)"

definition std_max :: "Real_ext \<Rightarrow> Real_ext \<Rightarrow> Real_ext" where
  "std_max a b = (if ext_less a b then b else a)"

text \<open>
  The arithmetic of the leap-size bound, where the default \<open>eps\<close> is the largest
  \<open>Real\<close> and the products overflow: a result beyond the largest \<open>Real\<close> is an
  infinity (\<open>Real_overflow\<close>), and the infinities and the NaN propagate as IEEE has it
  (\<open>inf * 0\<close>, \<open>inf - inf\<close> and \<open>inf / inf\<close> are NaN, a finite number over an
  infinity is 0). The sign of a zero is not modelled: a zero divisor counts as \<open>+0\<close>.
\<close>

definition Real_overflow :: "real \<Rightarrow> Real_ext" where
  "Real_overflow x =
     (if Real_max < x then PlusInf else if x < - Real_max then MinusInf else Finite x)"

fun ext_abs :: "Real_ext \<Rightarrow> Real_ext" where
  "ext_abs (Finite a) = Finite \<bar>a\<bar>"
| "ext_abs PlusInf = PlusInf"
| "ext_abs MinusInf = PlusInf"
| "ext_abs NaN = NaN"

fun ext_plus :: "Real_ext \<Rightarrow> Real_ext \<Rightarrow> Real_ext" where
  "ext_plus (Finite a) (Finite b) = Real_overflow (a + b)"
| "ext_plus NaN b = NaN"
| "ext_plus a NaN = NaN"
| "ext_plus PlusInf MinusInf = NaN"
| "ext_plus MinusInf PlusInf = NaN"
| "ext_plus (Finite a) b = b"
| "ext_plus a b = a"

fun ext_times :: "Real_ext \<Rightarrow> Real_ext \<Rightarrow> Real_ext" where
  "ext_times (Finite a) (Finite b) = Real_overflow (a * b)"
| "ext_times NaN b = NaN"
| "ext_times a NaN = NaN"
| "ext_times (Finite a) PlusInf = (if a = 0 then NaN else if 0 < a then PlusInf else MinusInf)"
| "ext_times (Finite a) MinusInf = (if a = 0 then NaN else if 0 < a then MinusInf else PlusInf)"
| "ext_times PlusInf (Finite b) = (if b = 0 then NaN else if 0 < b then PlusInf else MinusInf)"
| "ext_times MinusInf (Finite b) = (if b = 0 then NaN else if 0 < b then MinusInf else PlusInf)"
| "ext_times PlusInf PlusInf = PlusInf"
| "ext_times MinusInf MinusInf = PlusInf"
| "ext_times PlusInf MinusInf = MinusInf"
| "ext_times MinusInf PlusInf = MinusInf"

fun ext_div :: "Real_ext \<Rightarrow> Real_ext \<Rightarrow> Real_ext" where
  "ext_div (Finite a) (Finite b) =
     (if b \<noteq> 0 then Real_overflow (a / b)
      else if 0 < a then PlusInf else if a < 0 then MinusInf else NaN)"
| "ext_div NaN b = NaN"
| "ext_div a NaN = NaN"
| "ext_div (Finite a) b = Finite 0"
| "ext_div PlusInf (Finite b) = (if 0 \<le> b then PlusInf else MinusInf)"
| "ext_div MinusInf (Finite b) = (if 0 \<le> b then MinusInf else PlusInf)"
| "ext_div a b = NaN"

text \<open>
  Modelled from the spec: the enumeration \<open>KMCLeapPropagator\<close> is declared in the
  solver's header, which is not among the sources. The code names four selectors and has
  a \<open>default\<close> branch for any other value of the enumeration's integer type, the
  "unrecognized leap-propagator selector" of the specification; here \<open>Unrecognized\<close>.
\<close>

datatype KMCLeapPropagator = ExplicitEuler | Midpoint | PRC | ImplicitEuler | Unrecognized

subsection \<open>State changes, propensities, partitioning\<close>

text \<open>
  \<open>getNu\<close>, over the reactions left: each is fired once, by \<open>advanceState\<close>, on a copy
  of the state whose populations are all zero.
\<close>

fun getNu :: "('R, 'S) KMCTypes \<Rightarrow> 'S \<Rightarrow> 'R list \<Rightarrow> error + int list list" where
  "getNu K a_state [] = Inr []"
| "getNu K a_state (R # a_reactions) =
     (let preState = map (\<lambda>x. (0::int)) (linearOut K a_state);
          state = linearIn K a_state preState
      in case advanceState K R state 1 of
           Inl e \<Rightarrow> Inl e
         | Inr state' \<Rightarrow>
             (let postState = linearOut K state';
                  nu = map (\<lambda>i. postState ! i - preState ! i) [0..<length preState]
              in case getNu K a_state a_reactions of
                   Inl e \<Rightarrow> Inl e
                 | Inr ret \<Rightarrow> Inr (nu # ret)))"

definition propensities :: "('R, 'S) KMCTypes \<Rightarrow> 'S \<Rightarrow> 'R list \<Rightarrow> real list" where
  "propensities K a_state a_reactions = map (\<lambda>R. propensity K R a_state) a_reactions"

definition totalPropensity :: "('R, 'S) KMCTypes \<Rightarrow> 'S \<Rightarrow> 'R list \<Rightarrow> real" where
  "totalPropensity K a_state a_reactions =
     fold (\<lambda>R A. A + propensity K R a_state) a_reactions 0"

fun partitionReactions_loop ::
  "('R, 'S) KMCTypes \<Rightarrow> int \<Rightarrow> 'S \<Rightarrow> 'R list \<Rightarrow> 'R list \<Rightarrow> 'R list \<Rightarrow> 'R list \<times> 'R list" where
  "partitionReactions_loop K Ncrit a_state [] criticalReactions nonCriticalReactions =
     (criticalReactions, nonCriticalReactions)"
| "partitionReactions_loop K Ncrit a_state (R # rs) criticalReactions nonCriticalReactions =
     (let Lj = computeCriticalNumberOfReactions K R a_state
      in if Lj < Ncrit
         then partitionReactions_loop K Ncrit a_state rs (criticalReactions @ [R])
                nonCriticalReactions
         else partitionReactions_loop K Ncrit a_state rs criticalReactions
                (nonCriticalReactions @ [R]))"

definition partitionReactions ::
  "('R, 'S) KMCTypes \<Rightarrow> 'R KMCSolver \<Rightarrow> 'S \<Rightarrow> 'R list \<Rightarrow> 'R list \<times> 'R list" where
  "partitionReactions K S a_state a_reactions =
     partitionReactions_loop K (m_Ncrit S) a_state a_reactions [] []"

subsection \<open>Time steps\<close>

text \<open>
  \<open>getCriticalTimeStep(Real)\<close>: \<^verbatim>\<open>u = min() + getUniformReal01(); return log(1.0/u) / A;\<close>
  The generator returns values in \<open>[0, 1)\<close>, so \<open>u\<close> is positive; for completeness
  \<open>1.0/u\<close> is an infinity at \<open>u = 0\<close> and the logarithm a NaN below.
\<close>

definition getCriticalTimeStep :: "real \<Rightarrow> Random \<Rightarrow> Real_ext \<times> Random" where
  "getCriticalTimeStep a_totalPropensity rng =
     (let (x, rng') = getUniformReal01 rng;
          u = Real_min + x
      in (if u < 0 then NaN
          else if u = 0 then (if a_totalPropensity < 0 then MinusInf else PlusInf)
          else IEEE_div (ln (1 / u)) a_totalPropensity,
          rng'))"

definition getCriticalTimeStep_propensities :: "real list \<Rightarrow> Random \<Rightarrow> Real_ext \<times> Random" where
  "getCriticalTimeStep_propensities a_propensities rng =
     getCriticalTimeStep (fold (\<lambda>p A. A + p) a_propensities Real_min) rng"

text \<open>
  \<open>getNonCriticalTimeStep(State, ReactionList, std::vector<Real>)\<close>. \<open>std::unique\<close>
  removes repeats that are adjacent, as \<open>remdups_adj\<close> does. The sums \<open>mu\<close> and
  \<open>sigma2\<close>, the factor \<open>f\<close> and the two bounds are \<open>Real\<close>s that can overflow; the
  state change \<open>muIJ\<close> is a \<open>T\<close>, and so is its square.
\<close>

definition nonCritical_mu ::
  "('R, 'S) KMCTypes \<Rightarrow> 'R list \<Rightarrow> real list \<Rightarrow> nat \<Rightarrow> Real_ext" where
  "nonCritical_mu K a_nonCriticalReactions a_nonCriticalPropensities reactant =
     fold (\<lambda>i mu.
        let p = a_nonCriticalPropensities ! i;
            muIJ = getStateChange K (a_nonCriticalReactions ! i) reactant
        in ext_plus mu (ext_abs (Real_overflow (real_of_int muIJ * p))))
      [0..<length a_nonCriticalReactions] (Finite 0)"

definition nonCritical_sigma2 ::
  "('R, 'S) KMCTypes \<Rightarrow> 'R list \<Rightarrow> real list \<Rightarrow> nat \<Rightarrow> Real_ext" where
  "nonCritical_sigma2 K a_nonCriticalReactions a_nonCriticalPropensities reactant =
     fold (\<lambda>i sigma2.
        let p = a_nonCriticalPropensities ! i;
            muIJ = getStateChange K (a_nonCriticalReactions ! i) reactant
        in ext_plus sigma2 (ext_abs (Real_overflow (real_of_int (T_wrap (muIJ * muIJ)) * p))))
      [0..<length a_nonCriticalReactions] (Finite 0)"

definition nonCritical_reactantStep ::
  "('R, 'S) KMCTypes \<Rightarrow> 'R KMCSolver \<Rightarrow> 'S \<Rightarrow> 'R list \<Rightarrow> real list \<Rightarrow> nat \<Rightarrow>
     Real_ext \<Rightarrow> Real_ext" where
  "nonCritical_reactantStep K S a_state a_nonCriticalReactions a_nonCriticalPropensities
       reactant dt =
     (let Xi = population K (a_nonCriticalReactions ! 0) reactant a_state
      in if Xi > 0
         then (let mu = nonCritical_mu K a_nonCriticalReactions a_nonCriticalPropensities reactant;
                   sigma2 = nonCritical_sigma2 K a_nonCriticalReactions
                              a_nonCriticalPropensities reactant;
                   gi = Finite 4;
                   f = std_max (ext_div (Real_overflow (m_eps S * real_of_int Xi)) gi) (Finite 1);
                   dt1 = (if ext_less (Finite Real_min) mu then ext_div f mu
                          else Finite Real_max);
                   dt2 = (if ext_less (Finite Real_min) sigma2
                          then ext_div (ext_times f f) sigma2
                          else Finite Real_max)
               in std_min dt (std_min dt1 dt2))
         else dt)"

definition getNonCriticalTimeStep ::
  "('R, 'S) KMCTypes \<Rightarrow> 'R KMCSolver \<Rightarrow> 'S \<Rightarrow> 'R list \<Rightarrow> real list \<Rightarrow> Real_ext" where
  "getNonCriticalTimeStep K S a_state a_nonCriticalReactions a_nonCriticalPropensities =
     (if length a_nonCriticalReactions > 0
      then (let allReactants =
                  remdups_adj (concat (map (getReactants K) a_nonCriticalReactions))
            in fold (nonCritical_reactantStep K S a_state a_nonCriticalReactions
                       a_nonCriticalPropensities)
                 allReactants (Finite Real_max))
      else Finite Real_max)"

subsection \<open>The SSA step\<close>

text \<open>
  \<open>stepSSA(State, ReactionList, std::vector<Real>)\<close>. The search loop leaves
  \<open>r = numeric_limits<size_t>::max()\<close> when no cumulative sum reaches \<open>u * A\<close>; then
  \<open>a_reactions[r]\<close> is beyond the end of the list.
\<close>

fun stepSSA_search :: "nat \<Rightarrow> nat \<Rightarrow> real list \<Rightarrow> real \<Rightarrow> real \<Rightarrow> nat option" where
  "stepSSA_search 0 i a_propensities uA sumProp = None"
| "stepSSA_search (Suc n) i a_propensities uA sumProp =
     (let sumProp' = sumProp + a_propensities ! i
      in if sumProp' \<ge> uA then Some i
         else stepSSA_search n (Suc i) a_propensities uA sumProp')"

definition stepSSA ::
  "('R, 'S) KMCTypes \<Rightarrow> 'S \<Rightarrow> 'R list \<Rightarrow> real list \<Rightarrow> Random \<Rightarrow> error + 'S \<times> Random" where
  "stepSSA K a_state a_reactions a_propensities rng =
     (let numReactions = length a_reactions
      in if numReactions > 0
         then (let A = fold (\<lambda>i A. A + a_propensities ! i) [0..<numReactions] 0;
                   (u, rng') = getUniformReal01 rng
               in case stepSSA_search numReactions 0 a_propensities (u * A) 0 of
                    None \<Rightarrow> Inl OutOfRange
                  | Some r \<Rightarrow>
                      (case advanceState K (a_reactions ! r) a_state 1 of
                         Inl e \<Rightarrow> Inl e
                       | Inr a_state' \<Rightarrow> Inr (a_state', rng')))
         else Inr (a_state, rng))"

subsection \<open>The tau-leaping steps\<close>

text \<open>
  The sampling loop shared by the explicit Euler, midpoint and PRC steps, over the
  reactions paired with their propensities:
  \<^verbatim>\<open>n = (T) getPoisson<long long>(a[i] * dt); reactions[i]->advanceState(state, n);\<close>
\<close>

fun poisson_loop ::
  "('R, 'S) KMCTypes \<Rightarrow> ('R \<times> real) list \<Rightarrow> real \<Rightarrow> 'S \<Rightarrow> Random \<Rightarrow> error + 'S \<times> Random" where
  "poisson_loop K [] a_dt a_state rng = Inr (a_state, rng)"
| "poisson_loop K ((R, a) # ras) a_dt a_state rng =
     (let (numReactions, rng') = getPoisson (a * a_dt) rng
      in case advanceState K R a_state numReactions of
           Inl e \<Rightarrow> Inl e
         | Inr a_state' \<Rightarrow> poisson_loop K ras a_dt a_state' rng')"

definition stepExplicitEuler ::
  "('R, 'S) KMCTypes \<Rightarrow> 'S \<Rightarrow> 'R list \<Rightarrow> real \<Rightarrow> Random \<Rightarrow> error + 'S \<times> Random" where
  "stepExplicitEuler K a_state a_reactions a_dt rng =
     (if length a_reactions > 0
      then poisson_loop K (zip a_reactions (propensities K a_state a_reactions)) a_dt
             a_state rng
      else Inr (a_state, rng))"

fun midpoint_loop ::
  "('R, 'S) KMCTypes \<Rightarrow> ('R \<times> real) list \<Rightarrow> real \<Rightarrow> 'S \<Rightarrow> error + 'S" where
  "midpoint_loop K [] a_dt Xdagger = Inr Xdagger"
| "midpoint_loop K ((R, a) # ras) a_dt Xdagger =
     (case advanceState K R Xdagger \<lceil>0.5 * a * a_dt\<rceil> of
        Inl e \<Rightarrow> Inl e
      | Inr Xdagger' \<Rightarrow> midpoint_loop K ras a_dt Xdagger')"

definition stepMidpoint ::
  "('R, 'S) KMCTypes \<Rightarrow> 'S \<Rightarrow> 'R list \<Rightarrow> real \<Rightarrow> Random \<Rightarrow> error + 'S \<times> Random" where
  "stepMidpoint K a_state a_reactions a_dt rng =
     (if length a_reactions > 0
      then (case midpoint_loop K (zip a_reactions (propensities K a_state a_reactions))
                   a_dt a_state of
              Inl e \<Rightarrow> Inl e
            | Inr Xdagger \<Rightarrow>
                poisson_loop K (zip a_reactions (propensities K Xdagger a_reactions)) a_dt
                  a_state rng)
      else Inr (a_state, rng))"

text \<open>
  The first loop of \<open>stepPRC\<close>: the inner loop over \<open>k\<close> for one \<open>j\<close>, and the outer
  loop over the \<open>j\<close> left, which returns the corrected propensities.
\<close>

fun PRC_inner ::
  "('R, 'S) KMCTypes \<Rightarrow> 'S \<Rightarrow> 'R list \<Rightarrow> real \<Rightarrow> real list \<Rightarrow> nat \<Rightarrow> nat list \<Rightarrow> real \<Rightarrow>
     error + real" where
  "PRC_inner K a_state a_reactions a_dt ak j [] aj = Inr aj"
| "PRC_inner K a_state a_reactions a_dt ak j (k # ks) aj =
     (case advanceState K (a_reactions ! k) a_state 1 of
        Inl e \<Rightarrow> Inl e
      | Inr x \<Rightarrow>
          (let etajk = propensity K (a_reactions ! j) x - ak ! j
           in PRC_inner K a_state a_reactions a_dt ak j ks (aj + 0.5 * a_dt * ak ! k * etajk)))"

fun PRC_outer ::
  "('R, 'S) KMCTypes \<Rightarrow> 'S \<Rightarrow> 'R list \<Rightarrow> real \<Rightarrow> real list \<Rightarrow> nat list \<Rightarrow> error + real list" where
  "PRC_outer K a_state a_reactions a_dt ak [] = Inr []"
| "PRC_outer K a_state a_reactions a_dt ak (j # js) =
     (case PRC_inner K a_state a_reactions a_dt ak j [0..<length a_reactions] (ak ! j) of
        Inl e \<Rightarrow> Inl e
      | Inr ajj \<Rightarrow>
          (case PRC_outer K a_state a_reactions a_dt ak js of
             Inl e \<Rightarrow> Inl e
           | Inr aj \<Rightarrow> Inr (ajj # aj)))"

definition stepPRC ::
  "('R, 'S) KMCTypes \<Rightarrow> 'S \<Rightarrow> 'R list \<Rightarrow> real \<Rightarrow> Random \<Rightarrow> error + 'S \<times> Random" where
  "stepPRC K a_state a_reactions a_dt rng =
     (if length a_reactions > 0
      then (let ak = propensities K a_state a_reactions
            in case PRC_outer K a_state a_reactions a_dt ak [0..<length a_reactions] of
                 Inl e \<Rightarrow> Inl e
               | Inr aj \<Rightarrow> poisson_loop K (zip a_reactions aj) a_dt a_state rng)
      else Inr (a_state, rng))"

subsection \<open>The substepping loops of \<open>advanceTau\<close>\<close>

text \<open>
  Neither loop of \<open>advanceTau\<close> is bounded, so both take fuel, and running out of it is
  \<open>None\<close>. The loops are written once, over the step the \<open>switch\<close> selects, because
  \<open>stepImplicitEuler\<close> itself calls \<open>advanceTau\<close> with the explicit Euler propagator.
  The inner loop halves \<open>curDt\<close> until the trial state is valid and returns the trial
  state with the step taken; the outer loop commits it and advances \<open>curTime\<close>.
\<close>

type_synonym 'S leap = "'S \<Rightarrow> real \<Rightarrow> Random \<Rightarrow> (error + 'S \<times> Random) option"

fun advanceTau_substep ::
  "nat \<Rightarrow> ('S \<Rightarrow> bool) \<Rightarrow> 'S leap \<Rightarrow> 'S \<Rightarrow> real \<Rightarrow> Random \<Rightarrow> (error + 'S \<times> real \<times> Random) option" where
  "advanceTau_substep 0 valid step a_state curDt rng = None"
| "advanceTau_substep (Suc fuel) valid step a_state curDt rng =
     (case step a_state curDt rng of
        None \<Rightarrow> None
      | Some (Inl e) \<Rightarrow> Some (Inl e)
      | Some (Inr (state, rng')) \<Rightarrow>
          if valid state then Some (Inr (state, curDt, rng'))
          else advanceTau_substep fuel valid step a_state (curDt * 0.5) rng')"

fun advanceTau_loop ::
  "nat \<Rightarrow> ('S \<Rightarrow> bool) \<Rightarrow> 'S leap \<Rightarrow> real \<Rightarrow> 'S \<Rightarrow> real \<Rightarrow> Random \<Rightarrow> (error + 'S \<times> Random) option" where
  "advanceTau_loop 0 valid step a_dt a_state curTime rng = None"
| "advanceTau_loop (Suc fuel) valid step a_dt a_state curTime rng =
     (if curTime < a_dt
      then (case advanceTau_substep fuel valid step a_state (a_dt - curTime) rng of
              None \<Rightarrow> None
            | Some (Inl e) \<Rightarrow> Some (Inl e)
            | Some (Inr (state, curDt, rng')) \<Rightarrow>
                advanceTau_loop fuel valid step a_dt state (curTime + curDt) rng')
      else Some (Inr (a_state, rng)))"

definition advanceTau_ExplicitEuler ::
  "nat \<Rightarrow> ('R, 'S) KMCTypes \<Rightarrow> 'S \<Rightarrow> 'R list \<Rightarrow> real \<Rightarrow> Random \<Rightarrow> (error + 'S \<times> Random) option" where
  "advanceTau_ExplicitEuler fuel K a_state a_reactions a_dt rng =
     (if length a_reactions > 0
      then advanceTau_loop fuel (isValidState K)
             (\<lambda>state curDt r. Some (stepExplicitEuler K state a_reactions curDt r))
             a_dt a_state 0 rng
      else Some (Inr (a_state, rng)))"

subsection \<open>The implicit Euler step\<close>

text \<open>
  The vectors \<open>C\<close>, \<open>X\<close>, \<open>F\<close> are lists of length \<open>N\<close>; the Jacobian is the list of its
  entries in column-major order, \<open>J[i + j * N]\<close>.

  \<open>dgesv\<close> is the LAPACK routine: an argument of the model, which receives \<open>N\<close>, the
  matrix and the right-hand side and returns the solution with \<open>INFO\<close>.
\<close>

type_synonym lapack_dgesv = "nat \<Rightarrow> real list \<Rightarrow> real list \<Rightarrow> real list \<times> int"

definition implicitEuler_constantTerm ::
  "int list list \<Rightarrow> real list \<Rightarrow> nat \<Rightarrow> nat \<Rightarrow> real \<Rightarrow> int list \<Rightarrow> real list" where
  "implicitEuler_constantTerm nu ajX N M a_dt eulerOut =
     fold (\<lambda>j C. map (\<lambda>i. C ! i - real_of_int (nu ! j ! i) * ajX ! j * a_dt) [0..<N])
       [0..<M] (map (\<lambda>i. 1 * real_of_int (eulerOut ! i)) [0..<N])"

text \<open>
  \<open>computeF\<close>. The propensities at the rounded iterate are those of \<open>m_reactions\<close>, the
  solver's own list (\<open>this->propensities(stateXit)\<close>), whatever list the step was given.
\<close>

definition implicitEuler_computeF ::
  "('R, 'S) KMCTypes \<Rightarrow> 'R KMCSolver \<Rightarrow> 'S \<Rightarrow> int list list \<Rightarrow> nat \<Rightarrow> nat \<Rightarrow> real \<Rightarrow>
     real list \<Rightarrow> real list \<Rightarrow> real list" where
  "implicitEuler_computeF K S a_state nu N M a_dt Xit C =
     (let linState = map (\<lambda>i. llround (Xit ! i)) [0..<N];
          stateXit = linearIn K a_state linState;
          ajXit = propensities K stateXit (m_reactions S)
      in fold (\<lambda>j F. map (\<lambda>i. F ! i - a_dt * real_of_int (nu ! j ! i) * ajXit ! j) [0..<N])
           [0..<M] (map (\<lambda>i. Xit ! i - C ! i) [0..<N]))"

definition implicitEuler_computeNorm ::
  "('R, 'S) KMCTypes \<Rightarrow> 'R KMCSolver \<Rightarrow> 'S \<Rightarrow> int list list \<Rightarrow> nat \<Rightarrow> nat \<Rightarrow> real \<Rightarrow>
     real list \<Rightarrow> real list \<Rightarrow> real" where
  "implicitEuler_computeNorm K S a_state nu N M a_dt X C =
     fold (\<lambda>Fi norm. max norm \<bar>Fi\<bar>) (implicitEuler_computeF K S a_state nu N M a_dt X C) 0"

definition implicitEuler_jacobian ::
  "('R, 'S) KMCTypes \<Rightarrow> 'R KMCSolver \<Rightarrow> 'S \<Rightarrow> int list list \<Rightarrow> nat \<Rightarrow> nat \<Rightarrow> real \<Rightarrow>
     real list \<Rightarrow> real list \<Rightarrow> real list" where
  "implicitEuler_jacobian K S a_state nu N M a_dt X C =
     concat (map (\<lambda>j.
        let X1 = X;
            X2 = X[j := X ! j + max (0.01 * X ! j) 1];
            F1 = implicitEuler_computeF K S a_state nu N M a_dt X1 C;
            F2 = implicitEuler_computeF K S a_state nu N M a_dt X2 C
        in map (\<lambda>i. (F2 ! i - F1 ! i) / (X2 ! j - X1 ! j)) [0..<N])
      [0..<N])"

text \<open>
  The Newton loop, \<open>for (int k = 0; k < m_maxIter; k++)\<close>, over the iterations left.
  It returns the iterate with the flag \<open>converged\<close>, which starts true and is cleared
  only where \<open>INFO\<close> is not zero.
\<close>

fun implicitEuler_newton ::
  "nat \<Rightarrow> ('R, 'S) KMCTypes \<Rightarrow> lapack_dgesv \<Rightarrow> 'R KMCSolver \<Rightarrow> 'S \<Rightarrow> int list list \<Rightarrow> nat \<Rightarrow> nat \<Rightarrow>
     real \<Rightarrow> real list \<Rightarrow> real \<Rightarrow> real list \<Rightarrow> real list \<times> bool" where
  "implicitEuler_newton 0 K dgesv S a_state nu N M a_dt C initNorm X = (X, True)"
| "implicitEuler_newton (Suc iters) K dgesv S a_state nu N M a_dt C initNorm X =
     (let J = implicitEuler_jacobian K S a_state nu N M a_dt X C;
          F = implicitEuler_computeF K S a_state nu N M a_dt X C;
          (F', INFO) = dgesv N J F
      in if INFO \<noteq> 0 then (X, False)
         else (let X' = map (\<lambda>i. X ! i - F' ! i) [0..<N];
                   norm = implicitEuler_computeNorm K S a_state nu N M a_dt X' C
               in if ext_less (IEEE_div norm initNorm) (Finite (m_exitTol S)) then (X', True)
                  else implicitEuler_newton iters K dgesv S a_state nu N M a_dt C initNorm X'))"

text \<open>
  \<open>computeF\<close> reads \<open>ajXit[j]\<close> for every \<open>j < M\<close> (when \<open>N > 0\<close>), so a list
  \<open>m_reactions\<close> shorter than \<open>a_reactions\<close> is an index out of range.
\<close>

definition stepImplicitEuler ::
  "nat \<Rightarrow> ('R, 'S) KMCTypes \<Rightarrow> lapack_dgesv \<Rightarrow> 'R KMCSolver \<Rightarrow> 'S \<Rightarrow> 'R list \<Rightarrow> real \<Rightarrow> Random \<Rightarrow>
     (error + 'S \<times> Random) option" where
  "stepImplicitEuler fuel K dgesv S a_state a_reactions a_dt rng =
     (let inputState = linearOut K a_state
      in case getNu K a_state a_reactions of
           Inl e \<Rightarrow> Some (Inl e)
         | Inr nu \<Rightarrow>
     (let ajX = propensities K a_state a_reactions;
          N = length inputState;
          M = length a_reactions
      in case advanceTau_ExplicitEuler fuel K a_state a_reactions a_dt rng of
           None \<Rightarrow> None
         | Some (Inl e) \<Rightarrow> Some (Inl e)
         | Some (Inr (explicitEulerState, rng')) \<Rightarrow>
             if 0 < N \<and> length (m_reactions S) < M then Some (Inl OutOfRange)
             else (let eulerOut = linearOut K explicitEulerState;
                       C = implicitEuler_constantTerm nu ajX N M a_dt eulerOut;
                       X = map (\<lambda>i. 1 * real_of_int (eulerOut ! i)) [0..<N];
                       initNorm = implicitEuler_computeNorm K S a_state nu N M a_dt
                                    (replicate N 0) C;
                       (X', converged) = implicitEuler_newton (nat (m_maxIter S)) K dgesv S
                                           a_state nu N M a_dt C initNorm X;
                       outputState = (if converged then map (\<lambda>i. llround (X' ! i)) [0..<N]
                                      else replicate N (- 1))
                   in Some (Inr (linearIn K a_state outputState, rng')))))"

subsection \<open>\<open>advanceTau\<close>\<close>

text \<open>The \<open>switch\<close> of \<open>advanceTau\<close>; its \<open>default\<close> branch does nothing.\<close>

definition advanceTau_step ::
  "nat \<Rightarrow> ('R, 'S) KMCTypes \<Rightarrow> lapack_dgesv \<Rightarrow> 'R KMCSolver \<Rightarrow> 'R list \<Rightarrow> KMCLeapPropagator \<Rightarrow>
     'S leap" where
  "advanceTau_step fuel K dgesv S a_reactions a_leapPropagator state curDt rng =
     (case a_leapPropagator of
        ExplicitEuler \<Rightarrow> Some (stepExplicitEuler K state a_reactions curDt rng)
      | Midpoint \<Rightarrow> Some (stepMidpoint K state a_reactions curDt rng)
      | PRC \<Rightarrow> Some (stepPRC K state a_reactions curDt rng)
      | ImplicitEuler \<Rightarrow> stepImplicitEuler fuel K dgesv S state a_reactions curDt rng
      | Unrecognized \<Rightarrow> Some (Inr (state, rng)))"

definition advanceTau ::
  "nat \<Rightarrow> ('R, 'S) KMCTypes \<Rightarrow> lapack_dgesv \<Rightarrow> 'R KMCSolver \<Rightarrow> 'S \<Rightarrow> 'R list \<Rightarrow> real \<Rightarrow>
     KMCLeapPropagator \<Rightarrow> Random \<Rightarrow> (error + 'S \<times> Random) option" where
  "advanceTau fuel K dgesv S a_state a_reactions a_dt a_leapPropagator rng =
     (if length a_reactions > 0
      then advanceTau_loop fuel (isValidState K)
             (advanceTau_step fuel K dgesv S a_reactions a_leapPropagator)
             a_dt a_state 0 rng
      else Some (Inr (a_state, rng)))"

subsection \<open>\<open>advanceHybrid\<close>\<close>

text \<open>
  The SSA loop of the hybrid scheme,
  \<^verbatim>\<open>while (dtSSA < curDt && numSSA < m_numSSA)\<close>, which works on \<open>a_state\<close> itself. It
  returns the state with the final \<open>dtSSA\<close>. In the branch that fires a reaction
  \<open>dtReact\<close> is added to \<open>dtSSA\<close>; the other branch sets \<open>dtSSA = curDt\<close>, which ends
  the loop.
\<close>

function advanceHybrid_SSA ::
  "('R, 'S) KMCTypes \<Rightarrow> 'R KMCSolver \<Rightarrow> 'R list \<Rightarrow> real \<Rightarrow> 'S \<Rightarrow> real \<Rightarrow> int \<Rightarrow> Random \<Rightarrow>
     error + 'S \<times> real \<times> Random" where
  "advanceHybrid_SSA K S a_reactions curDt a_state dtSSA numSSA rng =
     (if dtSSA < curDt \<and> numSSA < m_numSSA S
      then (let propensities = propensities K a_state a_reactions;
                A = fold (\<lambda>i A. A + propensities ! i) [0..<length propensities] 0;
                (dtReact, rng1) = getCriticalTimeStep A rng
            in if ext_less (ext_add dtSSA dtReact) (Finite curDt)
               then (case stepSSA K a_state a_reactions propensities rng1 of
                       Inl e \<Rightarrow> Inl e
                     | Inr (a_state', rng2) \<Rightarrow>
                         (case dtReact of
                            Finite d \<Rightarrow>
                              advanceHybrid_SSA K S a_reactions curDt a_state' (dtSSA + d)
                                (numSSA + 1) rng2
                          | _ \<Rightarrow> Inl NonFinite))
               else Inr (a_state, curDt, rng1))
      else Inr (a_state, dtSSA, rng))"
  by pat_completeness auto
termination
  by (relation "measure (\<lambda>(K, S, a_reactions, curDt, a_state, dtSSA, numSSA, rng).
        nat (m_numSSA S - numSSA))") auto

declare advanceHybrid_SSA.simps [simp del]

text \<open>
  The step-rejection loop \<open>while (!validStep)\<close> of one outer iteration. It returns the
  committed state with the new \<open>curTime\<close>. Only \<open>dtNonCrit\<close> changes between trials.
\<close>

type_synonym ('R, 'S) propagator =
  "'S \<Rightarrow> 'R list \<Rightarrow> real \<Rightarrow> Random \<Rightarrow> (error + 'S \<times> Random) option"

fun advanceHybrid_substep ::
  "nat \<Rightarrow> ('R, 'S) KMCTypes \<Rightarrow> 'R KMCSolver \<Rightarrow> 'R list \<Rightarrow> real \<Rightarrow> ('R, 'S) propagator \<Rightarrow>
     'R list \<Rightarrow> 'R list \<Rightarrow> real list \<Rightarrow> Real_ext \<Rightarrow> 'S \<Rightarrow> real \<Rightarrow> real \<Rightarrow> Random \<Rightarrow>
     (error + 'S \<times> real \<times> Random) option" where
  "advanceHybrid_substep 0 K S a_reactions a_dt a_propagator criticalReactions
       nonCriticalReactions propensitiesCrit dtCrit a_state curTime dtNonCrit rng = None"
| "advanceHybrid_substep (Suc fuel) K S a_reactions a_dt a_propagator criticalReactions
       nonCriticalReactions propensitiesCrit dtCrit a_state curTime dtNonCrit rng =
     (let state = a_state
      in case std_min (Finite (a_dt - curTime)) (std_min dtCrit (Finite dtNonCrit)) of
           Finite curDt \<Rightarrow>
             (let nonCriticalOnly =
                    (ext_less (Finite dtNonCrit) dtCrit \<or> length criticalReactions = 0 \<or>
                     ext_less (Finite (a_dt - curTime)) dtCrit)
              in if nonCriticalOnly
                 then (let A = totalPropensity K state a_reactions
                       in if A * curDt < m_SSAlim S
                          then (case advanceHybrid_SSA K S a_reactions curDt a_state 0 0 rng of
                                  Inl e \<Rightarrow> Some (Inl e)
                                | Inr (a_state', dtSSA, rng') \<Rightarrow>
                                    Some (Inr (a_state', curTime + dtSSA, rng')))
                          else (case a_propagator state nonCriticalReactions curDt rng of
                                  None \<Rightarrow> None
                                | Some (Inl e) \<Rightarrow> Some (Inl e)
                                | Some (Inr (state', rng')) \<Rightarrow>
                                    if isValidState K state'
                                    then Some (Inr (state', curTime + curDt, rng'))
                                    else advanceHybrid_substep fuel K S a_reactions a_dt
                                           a_propagator criticalReactions nonCriticalReactions
                                           propensitiesCrit dtCrit a_state curTime
                                           (dtNonCrit * 0.5) rng'))
                 else (case stepSSA K state criticalReactions propensitiesCrit rng of
                         Inl e \<Rightarrow> Some (Inl e)
                       | Inr (state1, rng1) \<Rightarrow>
                           (case a_propagator state1 nonCriticalReactions curDt rng1 of
                              None \<Rightarrow> None
                            | Some (Inl e) \<Rightarrow> Some (Inl e)
                            | Some (Inr (state', rng')) \<Rightarrow>
                                if isValidState K state'
                                then Some (Inr (state', curTime + curDt, rng'))
                                else advanceHybrid_substep fuel K S a_reactions a_dt
                                       a_propagator criticalReactions nonCriticalReactions
                                       propensitiesCrit dtCrit a_state curTime
                                       (dtNonCrit * 0.5) rng')))
         | _ \<Rightarrow> Some (Inl NonFinite))"

text \<open>
  The outer loop \<open>while (curTime < a_dt)\<close> of the overload taking a \<open>std::function\<close>. The
  leap-size bound \<open>dtNonCrit\<close> is always a number (lemma \<open>getNonCriticalTimeStep_Finite\<close>), so
  the last branch of the case on it is never taken.
\<close>

fun advanceHybrid_loop ::
  "nat \<Rightarrow> ('R, 'S) KMCTypes \<Rightarrow> 'R KMCSolver \<Rightarrow> 'R list \<Rightarrow> real \<Rightarrow> ('R, 'S) propagator \<Rightarrow>
     'S \<Rightarrow> real \<Rightarrow> Random \<Rightarrow> (error + 'S \<times> Random) option" where
  "advanceHybrid_loop 0 K S a_reactions a_dt a_propagator a_state curTime rng = None"
| "advanceHybrid_loop (Suc fuel) K S a_reactions a_dt a_propagator a_state curTime rng =
     (if curTime < a_dt
      then (let partitionedReactions = partitionReactions K S a_state a_reactions;
                criticalReactions = fst partitionedReactions;
                nonCriticalReactions = snd partitionedReactions;
                propensitiesCrit = propensities K a_state criticalReactions;
                propensitiesNonCrit = propensities K a_state nonCriticalReactions;
                (dtCrit, rng1) = getCriticalTimeStep_propensities propensitiesCrit rng
            in case getNonCriticalTimeStep K S a_state nonCriticalReactions
                      propensitiesNonCrit of
                 Finite dtNonCrit \<Rightarrow>
                   (case advanceHybrid_substep fuel K S a_reactions a_dt a_propagator
                           criticalReactions nonCriticalReactions propensitiesCrit dtCrit
                           a_state curTime dtNonCrit rng1 of
                      None \<Rightarrow> None
                    | Some (Inl e) \<Rightarrow> Some (Inl e)
                    | Some (Inr (a_state', curTime', rng')) \<Rightarrow>
                        advanceHybrid_loop fuel K S a_reactions a_dt a_propagator a_state'
                          curTime' rng')
               | _ \<Rightarrow> Some (Inl NonFinite))
      else Some (Inr (a_state, rng)))"

definition advanceHybrid_function ::
  "nat \<Rightarrow> ('R, 'S) KMCTypes \<Rightarrow> 'R KMCSolver \<Rightarrow> 'S \<Rightarrow> 'R list \<Rightarrow> real \<Rightarrow> ('R, 'S) propagator \<Rightarrow>
     Random \<Rightarrow> (error + 'S \<times> Random) option" where
  "advanceHybrid_function fuel K S a_state a_reactions a_dt a_propagator rng =
     advanceHybrid_loop fuel K S a_reactions a_dt a_propagator a_state 0 rng"

text \<open>
  The overload taking the selector wraps the chosen step in a \<open>std::function\<close>; its
  \<open>default\<close> branch calls \<open>MayDay::Error\<close>.
\<close>

definition advanceHybrid ::
  "nat \<Rightarrow> ('R, 'S) KMCTypes \<Rightarrow> lapack_dgesv \<Rightarrow> 'R KMCSolver \<Rightarrow> 'S \<Rightarrow> 'R list \<Rightarrow> real \<Rightarrow>
     KMCLeapPropagator \<Rightarrow> Random \<Rightarrow> (error + 'S \<times> Random) option" where
  "advanceHybrid fuel K dgesv S a_state a_reactions a_dt a_leapPropagator rng =
     (case a_leapPropagator of
        ExplicitEuler \<Rightarrow>
          advanceHybrid_function fuel K S a_state a_reactions a_dt
            (\<lambda>s r dt g. Some (stepExplicitEuler K s r dt g)) rng
      | Midpoint \<Rightarrow>
          advanceHybrid_function fuel K S a_state a_reactions a_dt
            (\<lambda>s r dt g. Some (stepMidpoint K s r dt g)) rng
      | PRC \<Rightarrow>
          advanceHybrid_function fuel K S a_state a_reactions a_dt
            (\<lambda>s r dt g. Some (stepPRC K s r dt g)) rng
      | ImplicitEuler \<Rightarrow>
          advanceHybrid_function fuel K S a_state a_reactions a_dt
            (\<lambda>s r dt g. stepImplicitEuler fuel K dgesv S s r dt g) rng
      | Unrecognized \<Rightarrow> Some (Inl MayDay_Error))"

subsection \<open>The step bound as the specification words it\<close>

text \<open>
  The leap-size bound in the specification's words, for comparison with
  \<open>getNonCriticalTimeStep\<close>: for every species among the reactants of the non-critical
  reactions, \<open>mu\<close> is the sum of \<open>|nu_ij * a_j|\<close> and \<open>sigma2\<close> the sum of
  \<open>|nu_ij^2 * a_j|\<close> over the reactions \<open>j\<close>, \<open>f = max(eps * X_i / 4, 1)\<close>, the bound
  of the species is \<open>min(f / mu, f^2 / sigma2)\<close>, and the step is the minimum of the
  bounds, the largest \<open>Real\<close> when there is none. A quotient by zero is no bound.
\<close>

definition spec_speciesBound ::
  "('R, 'S) KMCTypes \<Rightarrow> 'R KMCSolver \<Rightarrow> 'S \<Rightarrow> 'R list \<Rightarrow> real list \<Rightarrow> nat \<Rightarrow> real" where
  "spec_speciesBound K S a_state reactions a species =
     (let X = real_of_int (population K (hd reactions) species a_state);
          mu = (\<Sum>j<length reactions.
                  \<bar>real_of_int (getStateChange K (reactions ! j) species) * a ! j\<bar>);
          sigma2 = (\<Sum>j<length reactions.
                  \<bar>(real_of_int (getStateChange K (reactions ! j) species))\<^sup>2 * a ! j\<bar>);
          f = max (m_eps S * X / 4) 1
      in min (if mu = 0 then Real_max else f / mu)
             (if sigma2 = 0 then Real_max else f\<^sup>2 / sigma2))"

definition spec_nonCriticalTimeStep ::
  "('R, 'S) KMCTypes \<Rightarrow> 'R KMCSolver \<Rightarrow> 'S \<Rightarrow> 'R list \<Rightarrow> real list \<Rightarrow> real" where
  "spec_nonCriticalTimeStep K S a_state reactions a =
     fold (\<lambda>species dt. min dt (spec_speciesBound K S a_state reactions a species))
       (remdups (concat (map (getReactants K) reactions))) Real_max"

section \<open>Concrete inputs\<close>

subsection \<open>A generator that repeats itself\<close>

text \<open>The generator whose uniform draws are all \<open>u\<close> and whose Poisson draws are all \<open>n\<close>.\<close>

definition constant_rng :: "real \<Rightarrow> int \<Rightarrow> Random" where
  "constant_rng u n =
     \<lparr>uniformReal01 = (\<lambda>k. u), poisson = (\<lambda>k mean. n), numUniform = 0, numPoisson = 0\<rparr>"

subsection \<open>A hybrid advance over two decays\<close>

text \<open>
  Two decays, \<open>X0 \<rightarrow> \<emptyset>\<close> and \<open>X1 \<rightarrow> \<emptyset>\<close>, both of rate 1, on the populations
  \<open>[0, 5]\<close>; a solver with \<open>Ncrit = 0\<close>, \<open>numSSA = 2\<close>, \<open>eps = 1\<close>, \<open>SSAlim = 1\<close>; and a
  generator whose uniform draws are \<open>1/2\<close>, \<open>3/4\<close>, \<open>0\<close>, \<open>1/8\<close>, \<open>1/8\<close>, ... The three
  reals are the time steps these draws give: the critical step of the empty critical
  list, and the waiting times of the first and second SSA reaction.
\<close>

definition hybrid_draws :: "nat \<Rightarrow> real" where
  "hybrid_draws k = (if k = 0 then 1 / 2 else if k = 1 then 3 / 4 else if k = 2 then 0 else 1 / 8)"

definition hybrid_rng :: "nat \<Rightarrow> Random" where
  "hybrid_rng k = \<lparr>uniformReal01 = hybrid_draws, poisson = (\<lambda>k mean. 0), numUniform = k, numPoisson = 0\<rparr>"

definition hybrid_dtReact1 :: real where
  "hybrid_dtReact1 = ln (1 / (Real_min + 3 / 4)) / 5"

definition hybrid_dtReact2 :: real where
  "hybrid_dtReact2 = ln (1 / (Real_min + 1 / 8)) / 4"

definition hybrid_dtCrit :: real where
  "hybrid_dtCrit = ln (1 / (Real_min + 1 / 2)) / Real_min"

definition hybrid_reactions :: "KMCSingleStateReaction list" where
  "hybrid_reactions = [KMCSingleStateReaction_new [0] [] 1, KMCSingleStateReaction_new [1] [] 1]"

definition hybrid_solver :: "KMCSingleStateReaction KMCSolver" where
  "hybrid_solver = setSolverParameters (KMCSolver_define hybrid_reactions) 0 2 100 1 1 (1 / 10 ^ 6)"

subsection \<open>An implicit Euler step over one decay\<close>

text \<open>
  One decay \<open>X0 \<rightarrow> \<emptyset>\<close> of rate 1 on the population \<open>[10]\<close>, a solver with the default
  parameters (\<open>maxIter = 100\<close>, \<open>exitTol = 1e-6\<close>) and, but for \<open>maxIter\<close>, the same
  with another iteration cap; a generator whose Poisson draws are all 5; and what
  \<open>dgesv\<close> does on a system of one equation: \<open>INFO = 1\<close> when the coefficient is
  zero, the quotient and \<open>INFO = 0\<close> otherwise.
\<close>

definition implicit_reactions :: "KMCSingleStateReaction list" where
  "implicit_reactions = [KMCSingleStateReaction_new [0] [] 1]"

definition implicit_solver :: "int \<Rightarrow> KMCSingleStateReaction KMCSolver" where
  "implicit_solver maxIter =
     setSolverParameters (KMCSolver_define implicit_reactions) 0 0 maxIter Real_max 0 (1 / 10 ^ 6)"

definition implicit_rng :: "nat \<Rightarrow> Random" where
  "implicit_rng k =
     \<lparr>uniformReal01 = (\<lambda>k. 1 / 2), poisson = (\<lambda>k mean. 5), numUniform = 0, numPoisson = k\<rparr>"

definition dgesv_1x1 :: lapack_dgesv where
  "dgesv_1x1 N J F = (if J ! 0 = 0 then (F, 1) else ([F ! 0 / J ! 0], 0))"

section \<open>Properties of the maps and loops\<close>

lemma map_of_map_emplace:
  "map_of m k = None \<Longrightarrow> map_of (map_emplace k v m) = (map_of m)(k \<mapsto> v)"
  by (induction m) (auto simp: fun_upd_twist)

lemma map_of_map_modify:
  "map_of (map_modify k f m) =
     (case map_of m k of None \<Rightarrow> map_of m | Some v \<Rightarrow> (map_of m)(k \<mapsto> f v))"
  by (induction m) (auto simp: fun_upd_twist split: option.splits)

lemma keys_map_modify: "map fst (map_modify k f m) = map fst m"
  by (induction m) auto

lemma set_keys_map_emplace: "set (map fst (map_emplace k v m)) = insert k (set (map fst m))"
proof (induction m)
  case Nil
  then show ?case by simp
next
  case (Cons p m)
  obtain k' v' where p: "p = (k', v')" by (cases p)
  from Cons show ?case by (simp add: p) blast
qed

lemma distinct_map_emplace:
  "map_of m k = None \<Longrightarrow> distinct (map fst m) \<Longrightarrow> distinct (map fst (map_emplace k v m))"
proof (induction m)
  case Nil
  then show ?case by simp
next
  case (Cons p m)
  obtain k' v' where p: "p = (k', v')" by (cases p)
  from Cons.prems have ne: "k \<noteq> k'" and absent: "map_of m k = None"
    by (auto simp: p split: if_splits)
  from absent have notin: "k \<notin> set (map fst m)"
    by (simp add: map_of_eq_None_iff)
  from Cons.prems have d: "k' \<notin> set (map fst m)" "distinct (map fst m)"
    by (auto simp: p)
  from Cons.IH [OF absent d(2)] have ih: "distinct (map fst (map_emplace k v m))" .
  show ?case
  proof (cases "k < k'")
    case True
    with notin d ne show ?thesis by (simp add: p)
  next
    case False
    have "k' \<notin> set (map fst (map_emplace k v m))"
      using d(1) ne by (simp only: set_keys_map_emplace) auto
    with False ne ih show ?thesis by (simp add: p)
  qed
qed

lemma map_of_map_count:
  "map_of (map_count d k m) =
     (map_of m)(k \<mapsto> (case map_of m k of None \<Rightarrow> d | Some v \<Rightarrow> v + d))"
  by (auto simp: map_count_def map_of_map_emplace map_of_map_modify split: option.splits)

lemma distinct_map_count:
  "distinct (map fst m) \<Longrightarrow> distinct (map fst (map_count d k m))"
  by (simp add: map_count_def distinct_map_emplace keys_map_modify)

lemma distinct_fold_map_count:
  "distinct (map fst m) \<Longrightarrow> distinct (map fst (fold (map_count d) ks m))"
  by (induction ks arbitrary: m) (auto simp: distinct_map_count)

lemma map_of_fold_map_count:
  fixes d :: "'v::semiring_1"
  shows "map_of (fold (map_count d) ks m) k =
     (if k \<in> set ks
      then Some ((case map_of m k of None \<Rightarrow> 0 | Some v \<Rightarrow> v) + of_nat (count_list ks k) * d)
      else map_of m k)"
proof (induction ks arbitrary: m)
  case Nil
  then show ?case by simp
next
  case (Cons a ks)
  show ?case
    by (simp add: Cons.IH map_of_map_count algebra_simps split: option.splits)
qed

lemma T_wrap_id: "T_range x \<Longrightarrow> T_wrap x = x"
  by (simp add: T_wrap_def T_range_def T_min_def T_max_def)

lemma T_wrap_range: "T_range (T_wrap x)"
proof -
  have "0 \<le> (x + 9223372036854775808) mod 18446744073709551616"
    and "(x + 9223372036854775808) mod 18446744073709551616 < 18446744073709551616"
    by simp_all
  then show ?thesis by (simp add: T_wrap_def T_range_def T_min_def T_max_def)
qed

lemma T_wrap_add_left: "T_wrap (T_wrap a + b) = T_wrap (a + b)"
proof -
  have "(T_wrap a + b + 9223372036854775808) mod 18446744073709551616 =
        ((a + 9223372036854775808) mod 18446744073709551616 + b) mod 18446744073709551616"
    by (simp add: T_wrap_def)
  also have "\<dots> = (a + 9223372036854775808 + b) mod 18446744073709551616"
    by (rule mod_add_left_eq)
  finally show ?thesis by (simp add: T_wrap_def algebra_simps)
qed

lemma T_wrap_add_right: "T_wrap (a + T_wrap b) = T_wrap (a + b)"
  using T_wrap_add_left [of b a] by (simp add: add.commute)

lemma T_wrap_small: "\<bar>x\<bar> \<le> T_max \<Longrightarrow> T_wrap x = x"
proof -
  assume "\<bar>x\<bar> \<le> T_max"
  then have "T_range x" unfolding T_range_def T_min_def T_max_def by linarith
  then show ?thesis by (rule T_wrap_id)
qed

lemma T_wrap_numeral:
  "T_wrap 0 = 0" "T_wrap 1 = 1" "T_wrap (- 1) = - 1"
  "numeral k \<le> T_max \<Longrightarrow> T_wrap (numeral k) = numeral k"
  "numeral k \<le> T_max \<Longrightarrow> T_wrap (- numeral k) = - numeral k"
  by (rule T_wrap_small, simp add: T_max_def)+

lemma advance_loop_length: "advance_loop m n x = Inr y \<Longrightarrow> length y = length x"
  by (induction m n x rule: advance_loop.induct) (auto split: if_splits)

lemma advance_loop_keys:
  "advance_loop m n x = Inr y \<Longrightarrow> list_all (\<lambda>p. fst p < length x) m"
  by (induction m n x rule: advance_loop.induct) (auto split: if_splits)

lemma advance_loop_returns:
  "list_all (\<lambda>p. fst p < length x) m \<Longrightarrow> \<exists>y. advance_loop m n x = Inr y"
  by (induction m n x rule: advance_loop.induct) auto

lemma advance_loop_nth:
  "advance_loop m n x = Inr y \<Longrightarrow> k < length x \<Longrightarrow> T_range (x ! k) \<Longrightarrow>
   y ! k = T_wrap (x ! k + n * sum_list (map snd (filter (\<lambda>p. fst p = k) m)))"
proof (induction m n x rule: advance_loop.induct)
  case (1 n x)
  then show ?case by (simp add: T_wrap_id)
next
  case (2 i nu m n x)
  let ?x' = "x[i := T_wrap (x ! i + T_wrap (n * nu))]"
  from "2.prems"(1) have i: "i < length x" and rec: "advance_loop m n ?x' = Inr y"
    by (auto split: if_splits)
  have k': "k < length ?x'" using "2.prems"(2) by simp
  show ?case
  proof (cases "i = k")
    case True
    have r: "T_range (?x' ! k)" using True i by (simp add: T_wrap_range)
    have "y ! k = T_wrap (?x' ! k + n * sum_list (map snd (filter (\<lambda>p. fst p = k) m)))"
      by (rule "2.IH" [OF i rec k' r])
    also have "?x' ! k = T_wrap (x ! k + T_wrap (n * nu))" using True i by simp
    also have "T_wrap (T_wrap (x ! k + T_wrap (n * nu)) +
                 n * sum_list (map snd (filter (\<lambda>p. fst p = k) m))) =
               T_wrap (x ! k + T_wrap (n * nu) + n * sum_list (map snd (filter (\<lambda>p. fst p = k) m)))"
      by (rule T_wrap_add_left)
    also have "x ! k + T_wrap (n * nu) + n * sum_list (map snd (filter (\<lambda>p. fst p = k) m)) =
               (x ! k + n * sum_list (map snd (filter (\<lambda>p. fst p = k) m))) + T_wrap (n * nu)"
      by simp
    also have "T_wrap (\<dots>) =
               T_wrap ((x ! k + n * sum_list (map snd (filter (\<lambda>p. fst p = k) m))) + n * nu)"
      by (rule T_wrap_add_right)
    finally show ?thesis using True by (simp add: algebra_simps)
  next
    case False
    have r: "T_range (?x' ! k)" using False "2.prems"(3) by simp
    have "y ! k = T_wrap (?x' ! k + n * sum_list (map snd (filter (\<lambda>p. fst p = k) m)))"
      by (rule "2.IH" [OF i rec k' r])
    with False show ?thesis by simp
  qed
qed

lemma advance_loop_range:
  assumes "advance_loop m n x = Inr y" and "list_all T_range x"
  shows "list_all T_range y"
proof -
  have len: "length y = length x" by (rule advance_loop_length [OF assms(1)])
  have "T_range (y ! k)" if "k < length y" for k
  proof -
    from that len have k: "k < length x" by simp
    with assms(2) have "T_range (x ! k)" by (simp add: list_all_length)
    from advance_loop_nth [OF assms(1) k this] show ?thesis by (simp add: T_wrap_range)
  qed
  then show ?thesis by (simp add: list_all_length)
qed

lemma advance_loop_inverse:
  assumes "advance_loop m n x = Inr y" and "list_all T_range x"
  shows "advance_loop m (- n) y = Inr x"
proof -
  have len: "length y = length x" by (rule advance_loop_length [OF assms(1)])
  from advance_loop_keys [OF assms(1)] len have "list_all (\<lambda>p. fst p < length y) m" by simp
  from advance_loop_returns [OF this] obtain z where z: "advance_loop m (- n) y = Inr z"
    by blast
  have lenz: "length z = length y" by (rule advance_loop_length [OF z])
  have ry: "list_all T_range y" by (rule advance_loop_range [OF assms])
  have "z = x"
  proof (rule nth_equalityI)
    show "length z = length x" using lenz len by simp
  next
    fix k assume "k < length z"
    with lenz len have ky: "k < length y" and kx: "k < length x" by simp_all
    let ?S = "sum_list (map snd (filter (\<lambda>p. fst p = k) m))"
    from assms(2) kx have rx: "T_range (x ! k)" by (simp add: list_all_length)
    from ry ky have "T_range (y ! k)" by (simp add: list_all_length)
    from advance_loop_nth [OF z ky this] have "z ! k = T_wrap (y ! k + - n * ?S)" .
    also have "y ! k = T_wrap (x ! k + n * ?S)" by (rule advance_loop_nth [OF assms(1) kx rx])
    also have "T_wrap (T_wrap (x ! k + n * ?S) + - n * ?S) = T_wrap (x ! k + n * ?S + - n * ?S)"
      by (rule T_wrap_add_left)
    also have "\<dots> = x ! k" using rx by (simp add: T_wrap_id)
    finally show "z ! k = x ! k" .
  qed
  with z show ?thesis by simp
qed


lemma fact_20_T_range: "n \<le> 20 \<Longrightarrow> T_range (int (fact n))"
proof -
  assume "n \<le> 20"
  then have "(fact n :: int) \<le> fact 20" by (rule fact_mono)
  also have "(fact 20 :: int) = 2432902008176640000" by (simp add: fact_numeral)
  finally have le: "(fact n :: int) \<le> 2432902008176640000" .
  have "(0::int) \<le> fact n" by simp
  then have ge: "- 9223372036854775808 \<le> (fact n :: int)" by (rule order_trans [rotated]) simp
  from le have le': "(fact n :: int) \<le> 9223372036854775807" by (rule order_trans) simp
  from ge le' show ?thesis by (simp add: T_range_def T_min_def T_max_def)
qed

lemma factorial_loop_fact:
  "j \<le> n \<Longrightarrow> n \<le> 20 \<Longrightarrow>
   factorial_loop (int n) (int j + 1) (int (fact j)) = int (fact n)"
proof (induction "n - j" arbitrary: j)
  case 0
  then have "j = n" by simp
  then show ?case by (simp add: factorial_loop.simps [of "int n" "int n + 1"])
next
  case (Suc d)
  then have lt: "j < n" and d: "d = n - Suc j" and le: "Suc j \<le> n" by auto
  from le Suc.prems(2) have "Suc j \<le> 20" by simp
  then have r: "T_range (int (fact (Suc j)))" by (rule fact_20_T_range)
  have prod: "int (fact j) * (int j + 1) = int (fact (Suc j))"
    by (simp add: algebra_simps)
  have "factorial_loop (int n) (int j + 1) (int (fact j)) =
        factorial_loop (int n) (int (Suc j) + 1) (T_wrap (int (fact j) * (int j + 1)))"
    using lt by (subst factorial_loop.simps) simp
  also have "T_wrap (int (fact j) * (int j + 1)) = int (fact (Suc j))"
    unfolding prod by (rule T_wrap_id [OF r])
  also have "factorial_loop (int n) (int (Suc j) + 1) (int (fact (Suc j))) = int (fact n)"
    using Suc.hyps(1) [OF d le Suc.prems(2)] .
  finally show ?case .
qed

lemma factorial_fact: "n \<le> 20 \<Longrightarrow> factorial (int n) = int (fact n)"
proof (cases n)
  case 0
  then show ?thesis by (simp add: factorial_def factorial_loop.simps [of 0 2])
next
  case (Suc k)
  assume n: "n \<le> 20"
  from Suc have "1 \<le> n" by simp
  from factorial_loop_fact [OF this n] show ?thesis by (simp add: factorial_def)
qed

text \<open>From 21 on the factorial of the code is not the factorial: \<open>21!\<close> wraps below 0.\<close>

lemma factorial_21: "factorial 21 = - 4249290049419214848"
  by (simp add: factorial_def factorial_loop.simps T_wrap_def)






lemma keys_fold_map_count:
  fixes d :: "'v::semiring_1"
  shows "set (map fst (fold (map_count d) ks m)) = set ks \<union> set (map fst m)"
proof -
  have "dom (map_of (fold (map_count d) ks m)) = set ks \<union> dom (map_of m)"
    by (auto simp: map_of_fold_map_count dom_def split: if_splits)
  then show ?thesis by (simp add: dom_map_of_conv_image_fst)
qed


lemma critical_loop_fold:
  "critical_loop m x Lj =
     fold min (map (\<lambda>p. T_div (x ! fst p) \<bar>snd p\<bar>) (filter (\<lambda>p. snd p < 0) m)) Lj"
  by (induction m x Lj rule: critical_loop.induct) (simp_all add: min.commute)

lemma fold_min_Min: "fold min xs (a::int) = Min (insert a (set xs))"
proof (induction xs arbitrary: a)
  case Nil
  then show ?case by simp
next
  case (Cons y xs)
  have "Min (insert (min y a) (set xs)) = Min (insert a (insert y (set xs)))"
    by (cases "set xs = {}") (simp_all add: min.commute min.left_commute Min_insert min.assoc)
  with Cons show ?case by (simp add: insert_commute)
qed


lemma isValid_loop_list_all: "isValid_loop xs b = (b \<and> list_all (\<lambda>p. 0 \<le> p) xs)"
  by (induction xs b rule: isValid_loop.induct) auto

lemma T_div_nonneg: "0 \<le> a \<Longrightarrow> 0 < b \<Longrightarrow> T_div a b = \<lfloor>real_of_int a / real_of_int b\<rfloor>"
  by (cases "a = 0") (simp_all add: T_div_def floor_divide_of_int_eq)

lemma int_div_le_self: "0 \<le> a \<Longrightarrow> 0 < b \<Longrightarrow> a div b \<le> (a::int)"
  using zdiv_mono2 [of a 1 b] by simp

lemma critical_loop_Min:
  fixes m :: "int std_map"
  defines "nu \<equiv> \<lambda>sp. (case map_of m sp of None \<Rightarrow> 0 | Some v \<Rightarrow> v)"
  assumes d: "distinct (map fst m)"
    and rng: "list_all (\<lambda>k. k < length x) (map fst m)"
    and nonneg: "list_all (\<lambda>p. 0 \<le> p) x"
    and bnd: "list_all (\<lambda>p. p \<le> T_max) x"
  shows "critical_loop m x T_max =
     (if {sp. nu sp < 0} = {} then T_max
      else Min ((\<lambda>sp. \<lfloor>real_of_int (x ! sp) / real_of_int \<bar>nu sp\<bar>\<rfloor>) ` {sp. nu sp < 0}))"
proof -
  let ?S = "{sp. nu sp < 0}"
  let ?q = "\<lambda>sp. \<lfloor>real_of_int (x ! sp) / real_of_int \<bar>nu sp\<bar>\<rfloor>"
  let ?neg = "filter (\<lambda>p. snd p < 0) m"
  have entry: "nu (fst p) = snd p \<and> fst p < length x" if "p \<in> set m" for p
  proof -
    from that d have "map_of m (fst p) = Some (snd p)" by simp
    moreover from that rng have "fst p < length x" by (auto simp: list_all_iff)
    ultimately show ?thesis by (simp add: nu_def)
  qed
  have S_keys: "?S = fst ` set ?neg"
  proof (rule set_eqI)
    fix sp
    show "sp \<in> ?S \<longleftrightarrow> sp \<in> fst ` set ?neg"
    proof
      assume "sp \<in> ?S"
      then obtain v where v: "map_of m sp = Some v" "v < 0"
        by (auto simp: nu_def split: option.splits)
      then have "(sp, v) \<in> set m" by (auto dest: map_of_SomeD)
      with v show "sp \<in> fst ` set ?neg" by force
    next
      assume "sp \<in> fst ` set ?neg"
      then obtain p where "p \<in> set m" "snd p < 0" "sp = fst p" by auto
      with entry [of p] show "sp \<in> ?S" by simp
    qed
  qed
  have val: "T_div (x ! fst p) \<bar>snd p\<bar> = ?q (fst p)" if "p \<in> set ?neg" for p
  proof -
    from that have p: "p \<in> set m" "snd p < 0" by auto
    from entry [OF p(1)] nonneg have "0 \<le> x ! fst p" by (auto simp: list_all_length)
    with p entry [OF p(1)] show ?thesis by (simp add: T_div_nonneg)
  qed
  have "set (map (\<lambda>p. T_div (x ! fst p) \<bar>snd p\<bar>) ?neg) =
        (\<lambda>p. T_div (x ! fst p) \<bar>snd p\<bar>) ` set ?neg"
    by (rule set_map)
  also have "\<dots> = (\<lambda>p. ?q (fst p)) ` set ?neg"
    by (rule image_cong [OF refl val])
  also have "\<dots> = ?q ` ?S"
    unfolding S_keys by (rule image_image [symmetric])
  finally have "set (map (\<lambda>p. T_div (x ! fst p) \<bar>snd p\<bar>) ?neg) = ?q ` ?S" .
  then have loop: "critical_loop m x T_max = Min (insert T_max (?q ` ?S))"
    by (simp only: critical_loop_fold fold_min_Min)
  have fin: "finite ?S" unfolding S_keys by simp
  show ?thesis
  proof (cases "?S = {}")
    case True
    with loop show ?thesis by simp
  next
    case False
    have le: "?q sp \<le> T_max" if "sp \<in> ?S" for sp
    proof -
      from that obtain p where p: "p \<in> set m" "snd p < 0" "sp = fst p"
        unfolding S_keys by auto
      from entry [OF p(1)] have i: "fst p < length x" and n: "nu (fst p) = snd p" by simp_all
      from i nonneg bnd have x: "0 \<le> x ! fst p" "x ! fst p \<le> T_max"
        by (auto simp: list_all_length)
      have "?q sp = x ! sp div \<bar>nu sp\<bar>" by (rule floor_divide_of_int_eq)
      also have "\<dots> \<le> x ! sp" using x p n
        by (simp add: int_div_le_self)
      finally show ?thesis using x p by simp
    qed
    from False fin have "Min (insert T_max (?q ` ?S)) = min T_max (Min (?q ` ?S))"
      by (simp add: Min_insert)
    also have "\<dots> = Min (?q ` ?S)"
    proof -
      from False obtain sp where sp: "sp \<in> ?S" by blast
      from fin sp have "Min (?q ` ?S) \<le> ?q sp" by (intro Min_le) simp_all
      also have "?q sp \<le> T_max" by (rule le [OF sp])
      finally show ?thesis by (simp only: min.absorb2)
    qed
    finally have eq: "Min (insert T_max (?q ` ?S)) = Min (?q ` ?S)" .
    from loop eq have "critical_loop m x T_max = Min (?q ` ?S)" by (rule trans)
    with False show ?thesis by (simp only: if_False)
  qed
qed
lemma Dual_new_fields:
  "m_lhsReactives (KMCDualStateReaction_new lhs rhsR rhsNR rate) = lhs"
  "m_rhsReactives (KMCDualStateReaction_new lhs rhsR rhsNR rate) = rhsR"
  "m_rhsNonReactives (KMCDualStateReaction_new lhs rhsR rhsNR rate) = rhsNR"
  "m_rate (KMCDualStateReaction_new lhs rhsR rhsNR rate) = rate"
  "m_reactiveStateChange (KMCDualStateReaction_new lhs rhsR rhsNR rate) =
     fold (map_count 1) rhsR (fold (map_count (- 1)) lhs [])"
  "m_nonReactiveStateChange (KMCDualStateReaction_new lhs rhsR rhsNR rate) =
     fold (map_count 1) rhsNR []"
  by (simp_all add: KMCDualStateReaction_new_def KMCDualStateReaction_computeStateChanges_def
        Let_def)


lemma Single_new_fields:
  "m_reactants (KMCSingleStateReaction_new lhs rhs rate) = lhs"
  "m_products (KMCSingleStateReaction_new lhs rhs rate) = rhs"
  "m_rate1 (KMCSingleStateReaction_new lhs rhs rate) = rate"
  "m_stateChange (KMCSingleStateReaction_new lhs rhs rate) =
     fold (map_count 1) rhs (fold (map_count (- 1)) lhs [])"
  by (simp_all add: KMCSingleStateReaction_new_def KMCSingleStateReaction_computeStateChanges_def
        Let_def)

lemma stateChange_distinct:
  "distinct (map fst (fold (map_count (1::int)) rhs (fold (map_count (- 1)) lhs [])))"
  by (intro distinct_fold_map_count) simp

lemma stateChange_keys:
  "set (map fst (fold (map_count (1::int)) rhs (fold (map_count (- 1)) lhs []))) =
     set lhs \<union> set rhs"
  by (simp only: keys_fold_map_count) auto

lemma stateChange_lookup:
  "(case map_of (fold (map_count (1::int)) rhs (fold (map_count (- 1)) lhs [])) sp of
      None \<Rightarrow> 0 | Some v \<Rightarrow> v) = int (count_list rhs sp) - int (count_list lhs sp)"
  by (simp add: map_of_fold_map_count count_list_0_iff)

lemma Dual_constructed_maps:
  assumes "KMCDualStateReaction_constructed R"
  shows "distinct (map fst (m_reactiveStateChange R))"
    and "distinct (map fst (m_nonReactiveStateChange R))"
    and "set (map fst (m_reactiveStateChange R)) = set (m_lhsReactives R) \<union> set (m_rhsReactives R)"
    and "set (map fst (m_nonReactiveStateChange R)) = set (m_rhsNonReactives R)"
proof -
  let ?N = "KMCDualStateReaction_new (m_lhsReactives R) (m_rhsReactives R)
              (m_rhsNonReactives R) (m_rate R)"
  from assms have R: "R = ?N" by (simp add: KMCDualStateReaction_constructed_def)
  have "distinct (map fst (m_reactiveStateChange ?N))"
    by (simp only: Dual_new_fields stateChange_distinct)
  then show "distinct (map fst (m_reactiveStateChange R))" using R by simp
  have "distinct (map fst (m_nonReactiveStateChange ?N))"
    unfolding Dual_new_fields by (intro distinct_fold_map_count) simp
  then show "distinct (map fst (m_nonReactiveStateChange R))" using R by simp
  have "set (map fst (m_reactiveStateChange ?N)) = set (m_lhsReactives R) \<union> set (m_rhsReactives R)"
    by (simp only: Dual_new_fields stateChange_keys)
  then show "set (map fst (m_reactiveStateChange R)) = set (m_lhsReactives R) \<union> set (m_rhsReactives R)"
    using R by simp
  have "set (map fst (m_nonReactiveStateChange ?N)) = set (m_rhsNonReactives R)"
    unfolding Dual_new_fields by (simp only: keys_fold_map_count) simp
  then show "set (map fst (m_nonReactiveStateChange R)) = set (m_rhsNonReactives R)"
    using R by simp
qed




lemma Single_constructed_maps:
  assumes "KMCSingleStateReaction_constructed R"
  shows "distinct (map fst (m_stateChange R))"
    and "set (map fst (m_stateChange R)) = set (m_reactants R) \<union> set (m_products R)"
proof -
  let ?N = "KMCSingleStateReaction_new (m_reactants R) (m_products R) (m_rate1 R)"
  from assms have R: "R = ?N" by (simp add: KMCSingleStateReaction_constructed_def)
  have "distinct (map fst (m_stateChange ?N))"
    by (simp only: Single_new_fields stateChange_distinct)
  then show "distinct (map fst (m_stateChange R))" using R by simp
  have "set (map fst (m_stateChange ?N)) = set (m_reactants R) \<union> set (m_products R)"
    by (simp only: Single_new_fields stateChange_keys)
  then show "set (map fst (m_stateChange R)) = set (m_reactants R) \<union> set (m_products R)"
    using R by simp
qed

lemma Dual_new_constructed: "KMCDualStateReaction_constructed (KMCDualStateReaction_new lhs rhsR rhsNR rate)"
  unfolding KMCDualStateReaction_constructed_def Dual_new_fields(1-4) ..

lemma Single_new_constructed: "KMCSingleStateReaction_constructed (KMCSingleStateReaction_new lhs rhs rate)"
  unfolding KMCSingleStateReaction_constructed_def Single_new_fields(1-3) ..

lemma Dual_isValidState_iff:
  "KMCDualState_isValidState s \<longleftrightarrow>
     list_all (\<lambda>p. 0 \<le> p) (m_reactiveState s) \<and> list_all (\<lambda>p. 0 \<le> p) (m_nonReactiveState s)"
  by (auto simp: KMCDualState_isValidState_def isValid_loop_list_all)

lemma Single_isValidState_iff:
  "KMCSingleState_isValidState s \<longleftrightarrow> list_all (\<lambda>p. 0 \<le> p) (m_state s)"
  by (simp add: KMCSingleState_isValidState_def isValid_loop_list_all)




section \<open>The limits of \<open>Real\<close>\<close>

text \<open>The limits of \<open>Real\<close> against small numbers, without unfolding them.\<close>

lemma Real_min_pos: "0 < Real_min" by (simp add: Real_min_def)

lemma Real_min_less_one: "Real_min < 1" by (simp add: Real_min_def)

lemma Real_min_less_numeral: "Real_min < numeral n"
proof -
  have "(1::real) \<le> numeral n" by simp
  with Real_min_less_one show ?thesis by (rule less_le_trans)
qed

lemma Real_max_ge_one: "1 \<le> Real_max"
proof -
  have "(1::real) \<le> 2 ^ 1023" by (rule one_le_power) simp
  moreover have "(1::real) \<le> 2 - 1 / 2 ^ 52" by simp
  ultimately have "1 * 1 \<le> (2 - 1 / 2 ^ 52) * (2::real) ^ 1023"
    by (intro mult_mono) simp_all
  then show ?thesis by (simp add: Real_max_def)
qed

lemma min_Real_max: "x \<le> 1 \<Longrightarrow> min Real_max x = x" "x \<le> 1 \<Longrightarrow> min x Real_max = x"
  using Real_max_ge_one by (simp_all add: min_def)

lemma le_Real_max: "x \<le> 1024 \<Longrightarrow> x \<le> Real_max"
proof -
  have "(2::real) ^ 10 \<le> 2 ^ 1023" by (rule power_increasing) simp_all
  moreover have "(1::real) \<le> 2 - 1 / 2 ^ 52" by simp
  ultimately have "1 * 2 ^ 10 \<le> (2 - 1 / 2 ^ 52) * (2::real) ^ 1023"
    by (intro mult_mono) simp_all
  then have "1024 \<le> Real_max" by (simp add: Real_max_def)
  then show "x \<le> 1024 \<Longrightarrow> x \<le> Real_max" by simp
qed

lemmas Real_eval = Real_min_pos Real_min_less_one Real_min_less_numeral min_Real_max


section \<open>Properties of the solver's loops\<close>

lemma partitionReactions_loop_filter:
  "partitionReactions_loop K Ncrit a_state rs crit non =
     (crit @ filter (\<lambda>R. computeCriticalNumberOfReactions K R a_state < Ncrit) rs,
      non @ filter (\<lambda>R. \<not> computeCriticalNumberOfReactions K R a_state < Ncrit) rs)"
  by (induction rs arbitrary: crit non) (simp_all add: Let_def)

lemma partitionReactions_filter:
  "partitionReactions K S a_state a_reactions =
     (filter (\<lambda>R. computeCriticalNumberOfReactions K R a_state < m_Ncrit S) a_reactions,
      filter (\<lambda>R. \<not> computeCriticalNumberOfReactions K R a_state < m_Ncrit S) a_reactions)"
  by (simp add: partitionReactions_def partitionReactions_loop_filter)

lemma fold_add_nth_sum_list:
  "n \<le> length xs \<Longrightarrow> fold (\<lambda>i A. A + xs ! i) [0..<n] (a::real) = a + sum_list (take n xs)"
proof (induction n arbitrary: a)
  case 0
  then show ?case by simp
next
  case (Suc n)
  then show ?case by (simp add: take_Suc_conv_app_nth)
qed

lemma stepSSA_search_Some:
  "stepSSA_search n i ps uA s = Some r \<Longrightarrow>
     i \<le> r \<and> r < i + n \<and>
     uA \<le> s + (\<Sum>k = i..r. ps ! k) \<and>
     (\<forall>k. i \<le> k \<and> k < r \<longrightarrow> s + (\<Sum>j = i..k. ps ! j) < uA)"
proof (induction n arbitrary: i s)
  case 0
  then show ?case by simp
next
  case (Suc n)
  show ?case
  proof (cases "uA \<le> s + ps ! i")
    case True
    with Suc.prems have "r = i" by simp
    with True show ?thesis by simp
  next
    case False
    with Suc.prems have rec: "stepSSA_search n (Suc i) ps uA (s + ps ! i) = Some r"
      by (simp add: Let_def)
    from Suc.IH [OF rec] have ih: "Suc i \<le> r" "r < Suc i + n"
      "uA \<le> s + ps ! i + (\<Sum>k = Suc i..r. ps ! k)"
      "\<forall>k. Suc i \<le> k \<and> k < r \<longrightarrow> s + ps ! i + (\<Sum>j = Suc i..k. ps ! j) < uA"
      by blast+
    have split: "(\<Sum>j = i..k. ps ! j) = ps ! i + (\<Sum>j = Suc i..k. ps ! j)" if "i \<le> k" for k
      using that by (rule sum.atLeast_Suc_atMost)
    show ?thesis
    proof (intro conjI allI impI)
      show "i \<le> r" using ih(1) by simp
      show "r < i + Suc n" using ih(2) by simp
      show "uA \<le> s + (\<Sum>k = i..r. ps ! k)"
        using ih(3) split [of r] ih(1) by simp
    next
      fix k assume k: "i \<le> k \<and> k < r"
      show "s + (\<Sum>j = i..k. ps ! j) < uA"
      proof (cases "k = i")
        case True
        with False show ?thesis by simp
      next
        case False
        with k have "Suc i \<le> k \<and> k < r" by simp
        with ih(4) have "s + ps ! i + (\<Sum>j = Suc i..k. ps ! j) < uA" by blast
        with split [of k] k show ?thesis by simp
      qed
    qed
  qed
qed

lemma stepSSA_search_None:
  "stepSSA_search n i ps uA s = None \<Longrightarrow> 0 < n \<Longrightarrow> s + (\<Sum>k = i..<i + n. ps ! k) < uA"
proof (induction n arbitrary: i s)
  case 0
  then show ?case by simp
next
  case (Suc n)
  from Suc.prems have lt: "s + ps ! i < uA"
    and rec: "stepSSA_search n (Suc i) ps uA (s + ps ! i) = None"
    by (simp_all add: Let_def split: if_splits)
  show ?case
  proof (cases n)
    case 0
    with lt show ?thesis by simp
  next
    case (Suc m)
    then have "0 < n" by simp
    from Suc.IH [OF rec this]
    have "s + ps ! i + (\<Sum>k = Suc i..<Suc i + n. ps ! k) < uA" .
    moreover have "(\<Sum>k = i..<i + Suc n. ps ! k) = ps ! i + (\<Sum>k = Suc i..<Suc i + n. ps ! k)"
      by (simp add: sum.atLeast_Suc_lessThan)
    ultimately show ?thesis by simp
  qed
qed

lemma sum_list_take_sum_nth:
  "n \<le> length xs \<Longrightarrow> sum_list (take n xs) = (\<Sum>k<n. (xs ! k :: real))"
proof (induction n)
  case 0
  then show ?case by simp
next
  case (Suc n)
  then show ?case by (simp add: take_Suc_conv_app_nth)
qed

lemma map_nth_upt_take: "n \<le> length xs \<Longrightarrow> map (\<lambda>k. xs ! k) [0..<n] = take n xs"
  by (rule nth_equalityI) simp_all

lemma sum_atMost_take: "r < length xs \<Longrightarrow> (\<Sum>k = 0..r. xs ! k) = sum_list (take (Suc r) (xs::real list))"
  using sum_list_take_sum_nth [of "Suc r" xs] by (simp add: atLeast0AtMost lessThan_Suc_atMost)


lemma fold_add_upt_sum: "fold (\<lambda>i acc. acc + h i) [0..<n] (a::real) = a + (\<Sum>i<n. h i)"
  by (induction n arbitrary: a) simp_all

lemma fold_min_filter_Min:
  "fold (\<lambda>x dt. if P x then min dt (g x) else dt) xs (d::real) =
     Min (insert d (g ` {x \<in> set xs. P x}))"
proof (induction xs arbitrary: d)
  case Nil
  then show ?case by simp
next
  case (Cons y xs)
  define B where "B = g ` {x \<in> set xs. P x}"
  have finB: "finite B" by (simp add: B_def)
  show ?case
  proof (cases "P y")
    case True
    have img: "g ` {x \<in> set (y # xs). P x} = insert (g y) B"
      using True by (auto simp: B_def)
    have "fold (\<lambda>x dt. if P x then min dt (g x) else dt) (y # xs) d =
          fold (\<lambda>x dt. if P x then min dt (g x) else dt) xs (min d (g y))"
      using True by simp
    also have "\<dots> = Min (insert (min d (g y)) B)"
      unfolding B_def by (rule Cons.IH)
    also have "\<dots> = Min (insert d (insert (g y) B))"
    proof (cases "B = {}")
      case True
      then show ?thesis by simp
    next
      case False
      with finB show ?thesis by (simp add: min.assoc)
    qed
    finally show ?thesis unfolding img .
  next
    case False
    then have img: "g ` {x \<in> set (y # xs). P x} = B" by (auto simp: B_def)
    have "fold (\<lambda>x dt. if P x then min dt (g x) else dt) (y # xs) d =
          fold (\<lambda>x dt. if P x then min dt (g x) else dt) xs d"
      using False by simp
    also have "\<dots> = Min (insert d B)"
      unfolding B_def by (rule Cons.IH)
    finally show ?thesis unfolding img .
  qed
qed

text \<open>
  Where nothing overflows, the sums, the factor and the bounds of the leap-size control
  are the exact ones, and a bound beyond the largest \<open>Real\<close> is no bound.
\<close>

lemma Real_overflow_Finite: "- Real_max \<le> x \<Longrightarrow> x \<le> Real_max \<Longrightarrow> Real_overflow x = Finite x"
  by (simp add: Real_overflow_def)

lemma Real_max_pos: "0 < Real_max"
  using Real_max_ge_one by simp

lemma fold_ext_plus_abs:
  assumes "0 \<le> c" and "c + (\<Sum>j<n. \<bar>h j\<bar>) \<le> Real_max"
  shows "fold (\<lambda>j acc. ext_plus acc (ext_abs (Real_overflow (h j)))) [0..<n] (Finite c) =
         Finite (c + (\<Sum>j<n. \<bar>h j\<bar>))"
  using assms(2)
proof (induction n)
  case 0
  then show ?case by simp
next
  case (Suc n)
  have nonneg: "0 \<le> (\<Sum>j<n. \<bar>h j\<bar>)" by (rule sum_nonneg) simp
  from Suc.prems have total: "c + (\<Sum>j<n. \<bar>h j\<bar>) + \<bar>h n\<bar> \<le> Real_max" by simp
  then have part: "c + (\<Sum>j<n. \<bar>h j\<bar>) \<le> Real_max" by simp
  from total assms(1) nonneg have hn: "\<bar>h n\<bar> \<le> Real_max" by linarith
  then have o: "Real_overflow (h n) = Finite (h n)"
    by (intro Real_overflow_Finite) simp_all
  have lower: "- Real_max \<le> c + (\<Sum>j<n. \<bar>h j\<bar>) + \<bar>h n\<bar>"
    using assms(1) nonneg Real_max_pos by linarith
  have "fold (\<lambda>j acc. ext_plus acc (ext_abs (Real_overflow (h j)))) [0..<Suc n] (Finite c) =
        ext_plus (Finite (c + (\<Sum>j<n. \<bar>h j\<bar>))) (ext_abs (Real_overflow (h n)))"
    using Suc.IH [OF part] by simp
  also have "\<dots> = Real_overflow (c + (\<Sum>j<n. \<bar>h j\<bar>) + \<bar>h n\<bar>)"
    by (simp add: o)
  also have "\<dots> = Finite (c + (\<Sum>j<n. \<bar>h j\<bar>) + \<bar>h n\<bar>)"
    by (rule Real_overflow_Finite [OF lower total])
  finally show ?case by simp
qed

lemma nonCritical_mu_exact:
  assumes "(\<Sum>j<length rs. \<bar>real_of_int (getStateChange K (rs ! j) i) * a ! j\<bar>) \<le> Real_max"
  shows "nonCritical_mu K rs a i =
         Finite (\<Sum>j<length rs. \<bar>real_of_int (getStateChange K (rs ! j) i) * a ! j\<bar>)"
  using fold_ext_plus_abs [of 0 "\<lambda>j. real_of_int (getStateChange K (rs ! j) i) * a ! j"
          "length rs"] assms
  by (simp add: nonCritical_mu_def Let_def)

lemma fold_cong_upt:
  "(\<And>j. j < n \<Longrightarrow> f j = g j) \<Longrightarrow> fold f [0..<n] c = fold g [0..<n] c"
  by (rule fold_cong) simp_all

lemma nonCritical_sigma2_exact:
  assumes "(\<Sum>j<length rs. \<bar>(real_of_int (getStateChange K (rs ! j) i))\<^sup>2 * a ! j\<bar>) \<le> Real_max"
    and "\<forall>j<length rs. (getStateChange K (rs ! j) i)\<^sup>2 \<le> T_max"
  shows "nonCritical_sigma2 K rs a i =
         Finite (\<Sum>j<length rs. \<bar>(real_of_int (getStateChange K (rs ! j) i))\<^sup>2 * a ! j\<bar>)"
proof -
  have w: "T_wrap (getStateChange K (rs ! j) i * getStateChange K (rs ! j) i) =
           (getStateChange K (rs ! j) i)\<^sup>2" if "j < length rs" for j
  proof -
    from that assms(2) have "(getStateChange K (rs ! j) i)\<^sup>2 \<le> T_max" by blast
    moreover have "T_min \<le> (getStateChange K (rs ! j) i)\<^sup>2"
      by (rule order_trans [of _ 0]) (simp_all add: T_min_def)
    ultimately have "T_range ((getStateChange K (rs ! j) i)\<^sup>2)" by (simp add: T_range_def)
    then show ?thesis by (simp add: T_wrap_id power2_eq_square)
  qed
  have "nonCritical_sigma2 K rs a i =
        fold (\<lambda>j acc. ext_plus acc (ext_abs (Real_overflow
               ((real_of_int (getStateChange K (rs ! j) i))\<^sup>2 * a ! j)))) [0..<length rs] (Finite 0)"
    unfolding nonCritical_sigma2_def Let_def
    by (rule fold_cong_upt) (simp add: w)
  also have "\<dots> = Finite (0 + (\<Sum>j<length rs. \<bar>(real_of_int (getStateChange K (rs ! j) i))\<^sup>2 * a ! j\<bar>))"
    by (rule fold_ext_plus_abs) (use assms(1) in simp_all)
  finally show ?thesis by simp
qed

lemma std_min_overflow:
  assumes "d \<le> Real_max" and "0 \<le> q1" and "0 \<le> q2"
  shows "std_min (Finite d) (std_min (Real_overflow q1) (Real_overflow q2)) =
         Finite (min d (min q1 q2))"
  using assms Real_max_pos
  by (auto simp: Real_overflow_def std_min_def min_def)

lemma nonCritical_factor_exact:
  assumes "x \<le> Real_max"
  shows "std_max (ext_div (Real_overflow x) (Finite 4)) (Finite 1) = Finite (max (x / 4) 1)"
proof (cases "x < - Real_max")
  case True
  with Real_max_pos have "x / 4 < 1" by simp
  with True assms show ?thesis by (simp add: Real_overflow_def std_max_def max_def)
next
  case False
  with assms have o: "Real_overflow x = Finite x" by (simp add: Real_overflow_def)
  from False assms Real_max_pos have "- Real_max \<le> x / 4" "x / 4 \<le> Real_max" by simp_all
  then have "Real_overflow (x / 4) = Finite (x / 4)" by (rule Real_overflow_Finite)
  then show ?thesis by (simp add: o std_max_def max_def)
qed

lemma nonCritical_reactantStep_exact:
  assumes X: "0 < population K (rs ! 0) i a_state"
    and d: "d \<le> Real_max"
    and eps: "m_eps S * real_of_int (population K (rs ! 0) i a_state) \<le> Real_max"
    and f2: "(max (m_eps S * real_of_int (population K (rs ! 0) i a_state) / 4) 1)\<^sup>2 \<le> Real_max"
    and mu: "(\<Sum>j<length rs. \<bar>real_of_int (getStateChange K (rs ! j) i) * a ! j\<bar>) \<le> Real_max"
    and sigma2: "(\<Sum>j<length rs. \<bar>(real_of_int (getStateChange K (rs ! j) i))\<^sup>2 * a ! j\<bar>) \<le> Real_max"
    and nu: "\<forall>j<length rs. (getStateChange K (rs ! j) i)\<^sup>2 \<le> T_max"
  shows "nonCritical_reactantStep K S a_state rs a i (Finite d) =
     Finite (min d
        (min (if Real_min < (\<Sum>j<length rs. \<bar>real_of_int (getStateChange K (rs ! j) i) * a ! j\<bar>)
              then max (m_eps S * real_of_int (population K (rs ! 0) i a_state) / 4) 1 /
                   (\<Sum>j<length rs. \<bar>real_of_int (getStateChange K (rs ! j) i) * a ! j\<bar>)
              else Real_max)
             (if Real_min < (\<Sum>j<length rs. \<bar>(real_of_int (getStateChange K (rs ! j) i))\<^sup>2 * a ! j\<bar>)
              then (max (m_eps S * real_of_int (population K (rs ! 0) i a_state) / 4) 1)\<^sup>2 /
                   (\<Sum>j<length rs. \<bar>(real_of_int (getStateChange K (rs ! j) i))\<^sup>2 * a ! j\<bar>)
              else Real_max)))"
proof -
  define M where "M = (\<Sum>j<length rs. \<bar>real_of_int (getStateChange K (rs ! j) i) * a ! j\<bar>)"
  define V where "V = (\<Sum>j<length rs. \<bar>(real_of_int (getStateChange K (rs ! j) i))\<^sup>2 * a ! j\<bar>)"
  define f where "f = max (m_eps S * real_of_int (population K (rs ! 0) i a_state) / 4) 1"
  define q1 where "q1 = (if Real_min < M then f / M else Real_max)"
  define q2 where "q2 = (if Real_min < V then f\<^sup>2 / V else Real_max)"
  have f1: "1 \<le> f" by (simp add: f_def)
  then have f0: "0 < f" by simp
  have sq: "0 \<le> f\<^sup>2" "f\<^sup>2 \<le> Real_max" using f2 by (simp_all add: f_def)
  have m: "nonCritical_mu K rs a i = Finite M"
    unfolding M_def by (rule nonCritical_mu_exact [OF mu])
  have v: "nonCritical_sigma2 K rs a i = Finite V"
    unfolding V_def by (rule nonCritical_sigma2_exact [OF sigma2 nu])
  have fe: "std_max (ext_div (Real_overflow (m_eps S * real_of_int (population K (rs ! 0) i a_state)))
              (Finite 4)) (Finite 1) = Finite f"
    unfolding f_def by (rule nonCritical_factor_exact [OF eps])
  have "- Real_max \<le> f\<^sup>2" using sq(1) Real_max_pos by linarith
  from this sq(2) have "Real_overflow (f\<^sup>2) = Finite (f\<^sup>2)" by (rule Real_overflow_Finite)
  then have ff: "ext_times (Finite f) (Finite f) = Finite (f\<^sup>2)"
    by (simp add: power2_eq_square)
  have dt1: "(if ext_less (Finite Real_min) (Finite M) then ext_div (Finite f) (Finite M)
              else Finite Real_max) = Real_overflow q1"
    using Real_min_pos Real_max_pos by (auto simp: q1_def Real_overflow_def)
  have dt2: "(if ext_less (Finite Real_min) (Finite V) then ext_div (Finite (f\<^sup>2)) (Finite V)
              else Finite Real_max) = Real_overflow q2"
    using Real_min_pos Real_max_pos by (auto simp: q2_def Real_overflow_def)
  have q: "0 \<le> q1" "0 \<le> q2"
    using f0 Real_min_pos Real_max_pos by (auto simp: q1_def q2_def)
  have "nonCritical_reactantStep K S a_state rs a i (Finite d) =
        std_min (Finite d) (std_min (Real_overflow q1) (Real_overflow q2))"
    using X by (simp only: nonCritical_reactantStep_def Let_def m v fe ff dt1 dt2 if_True)
  also have "\<dots> = Finite (min d (min q1 q2))"
    by (rule std_min_overflow [OF d q])
  finally show ?thesis unfolding q1_def q2_def f_def M_def V_def .
qed

lemma nonCritical_reactantStep_skip:
  "\<not> 0 < population K (rs ! 0) i a_state \<Longrightarrow>
   nonCritical_reactantStep K S a_state rs a i dt = dt"
  by (simp add: nonCritical_reactantStep_def Let_def)

lemma fold_Finite:
  assumes "\<And>x d. x \<in> set xs \<Longrightarrow> d \<le> B \<Longrightarrow> F x (Finite d) = Finite (G x d)"
    and "\<And>x d. x \<in> set xs \<Longrightarrow> d \<le> B \<Longrightarrow> G x d \<le> B"
    and "d \<le> (B::real)"
  shows "fold F xs (Finite d) = Finite (fold G xs d)"
  using assms
proof (induction xs arbitrary: d)
  case Nil
  then show ?case by simp
next
  case (Cons y xs)
  have s: "F y (Finite d) = Finite (G y d)" by (rule Cons.prems(1)) (simp_all add: Cons.prems(3))
  have b: "G y d \<le> B" by (rule Cons.prems(2)) (simp_all add: Cons.prems(3))
  have "fold F xs (Finite (G y d)) = Finite (fold G xs (G y d))"
    by (rule Cons.IH) (use Cons.prems(1,2) b in simp_all)
  with s show ?case by simp
qed

text \<open>
  Where the product \<open>eps * Xi\<close> overflows, \<open>f\<close> is an infinity, so is every quotient the
  species gives, and the step stays as it is.
\<close>

lemma nonCritical_reactantStep_overflow:
  assumes X: "0 < population K (rs ! 0) i a_state"
    and d: "d \<le> Real_max"
    and eps: "Real_max < m_eps S * real_of_int (population K (rs ! 0) i a_state)"
    and mu: "(\<Sum>j<length rs. \<bar>real_of_int (getStateChange K (rs ! j) i) * a ! j\<bar>) \<le> Real_max"
    and sigma2: "(\<Sum>j<length rs. \<bar>(real_of_int (getStateChange K (rs ! j) i))\<^sup>2 * a ! j\<bar>) \<le> Real_max"
    and nu: "\<forall>j<length rs. (getStateChange K (rs ! j) i)\<^sup>2 \<le> T_max"
  shows "nonCritical_reactantStep K S a_state rs a i (Finite d) = Finite d"
proof -
  define M where "M = (\<Sum>j<length rs. \<bar>real_of_int (getStateChange K (rs ! j) i) * a ! j\<bar>)"
  define V where "V = (\<Sum>j<length rs. \<bar>(real_of_int (getStateChange K (rs ! j) i))\<^sup>2 * a ! j\<bar>)"
  have m: "nonCritical_mu K rs a i = Finite M"
    unfolding M_def by (rule nonCritical_mu_exact [OF mu])
  have v: "nonCritical_sigma2 K rs a i = Finite V"
    unfolding V_def by (rule nonCritical_sigma2_exact [OF sigma2 nu])
  have M0: "0 \<le> M" unfolding M_def by (rule sum_nonneg) simp
  have V0: "0 \<le> V" unfolding V_def by (rule sum_nonneg) simp
  have fe: "std_max (ext_div (Real_overflow (m_eps S * real_of_int (population K (rs ! 0) i a_state)))
              (Finite 4)) (Finite 1) = PlusInf"
    using eps by (simp add: Real_overflow_def std_max_def)
  have dt1: "(if ext_less (Finite Real_min) (Finite M) then ext_div PlusInf (Finite M)
              else Finite Real_max) = (if Real_min < M then PlusInf else Finite Real_max)"
    using M0 by simp
  have dt2: "(if ext_less (Finite Real_min) (Finite V) then ext_div (ext_times PlusInf PlusInf) (Finite V)
              else Finite Real_max) = (if Real_min < V then PlusInf else Finite Real_max)"
    using V0 by simp
  have "nonCritical_reactantStep K S a_state rs a i (Finite d) =
        std_min (Finite d) (std_min (if Real_min < M then PlusInf else Finite Real_max)
                                    (if Real_min < V then PlusInf else Finite Real_max))"
    using X by (simp only: nonCritical_reactantStep_def Let_def m v fe dt1 dt2 if_True)
  also have "\<dots> = Finite d"
    using d by (simp add: std_min_def)
  finally show ?thesis .
qed

lemma getNonCriticalTimeStep_exact:
  assumes noOverflow:
    "\<forall>i\<in>set (concat (map (getReactants K) rs)). 0 < population K (rs ! 0) i a_state \<longrightarrow>
       (\<Sum>j<length rs. \<bar>real_of_int (getStateChange K (rs ! j) i) * a ! j\<bar>) \<le> Real_max \<and>
       (\<Sum>j<length rs. \<bar>(real_of_int (getStateChange K (rs ! j) i))\<^sup>2 * a ! j\<bar>) \<le> Real_max \<and>
       (\<forall>j<length rs. (getStateChange K (rs ! j) i)\<^sup>2 \<le> T_max) \<and>
       (m_eps S * real_of_int (population K (rs ! 0) i a_state) \<le> Real_max \<longrightarrow>
        (max (m_eps S * real_of_int (population K (rs ! 0) i a_state) / 4) 1)\<^sup>2 \<le> Real_max)"
  shows "getNonCriticalTimeStep K S a_state rs a =
     Finite (Min (insert Real_max
       ((\<lambda>i. min
          (if Real_min < (\<Sum>j<length rs. \<bar>real_of_int (getStateChange K (rs ! j) i) * a ! j\<bar>)
           then max (m_eps S * real_of_int (population K (rs ! 0) i a_state) / 4) 1 /
                (\<Sum>j<length rs. \<bar>real_of_int (getStateChange K (rs ! j) i) * a ! j\<bar>)
           else Real_max)
          (if Real_min < (\<Sum>j<length rs. \<bar>(real_of_int (getStateChange K (rs ! j) i))\<^sup>2 * a ! j\<bar>)
           then (max (m_eps S * real_of_int (population K (rs ! 0) i a_state) / 4) 1)\<^sup>2 /
                (\<Sum>j<length rs. \<bar>(real_of_int (getStateChange K (rs ! j) i))\<^sup>2 * a ! j\<bar>)
           else Real_max)) `
        {i \<in> set (concat (map (getReactants K) rs)).
           0 < population K (rs ! 0) i a_state \<and>
           m_eps S * real_of_int (population K (rs ! 0) i a_state) \<le> Real_max})))"
proof (cases "rs = []")
  case True
  then show ?thesis by (simp add: getNonCriticalTimeStep_def)
next
  case False
  let ?P = "\<lambda>i. 0 < population K (rs ! 0) i a_state \<and>
                m_eps S * real_of_int (population K (rs ! 0) i a_state) \<le> Real_max"
  let ?g = "\<lambda>i. min
          (if Real_min < (\<Sum>j<length rs. \<bar>real_of_int (getStateChange K (rs ! j) i) * a ! j\<bar>)
           then max (m_eps S * real_of_int (population K (rs ! 0) i a_state) / 4) 1 /
                (\<Sum>j<length rs. \<bar>real_of_int (getStateChange K (rs ! j) i) * a ! j\<bar>)
           else Real_max)
          (if Real_min < (\<Sum>j<length rs. \<bar>(real_of_int (getStateChange K (rs ! j) i))\<^sup>2 * a ! j\<bar>)
           then (max (m_eps S * real_of_int (population K (rs ! 0) i a_state) / 4) 1)\<^sup>2 /
                (\<Sum>j<length rs. \<bar>(real_of_int (getStateChange K (rs ! j) i))\<^sup>2 * a ! j\<bar>)
           else Real_max)"
  let ?G = "\<lambda>x dt. if ?P x then min dt (?g x) else dt"
  let ?xs = "remdups_adj (concat (map (getReactants K) rs))"
  have step: "nonCritical_reactantStep K S a_state rs a x (Finite d) = Finite (?G x d)"
    if x: "x \<in> set ?xs" and d: "d \<le> Real_max" for x d
  proof (cases "0 < population K (rs ! 0) x a_state")
    case pos: True
    from x have "x \<in> set (concat (map (getReactants K) rs))" by (simp only: remdups_adj_set)
    with noOverflow pos have h:
      "(\<Sum>j<length rs. \<bar>real_of_int (getStateChange K (rs ! j) x) * a ! j\<bar>) \<le> Real_max"
      "(\<Sum>j<length rs. \<bar>(real_of_int (getStateChange K (rs ! j) x))\<^sup>2 * a ! j\<bar>) \<le> Real_max"
      "\<forall>j<length rs. (getStateChange K (rs ! j) x)\<^sup>2 \<le> T_max"
      "m_eps S * real_of_int (population K (rs ! 0) x a_state) \<le> Real_max \<longrightarrow>
        (max (m_eps S * real_of_int (population K (rs ! 0) x a_state) / 4) 1)\<^sup>2 \<le> Real_max"
      by blast+
    show ?thesis
    proof (cases "m_eps S * real_of_int (population K (rs ! 0) x a_state) \<le> Real_max")
      case True
      with h(4) have f2: "(max (m_eps S * real_of_int (population K (rs ! 0) x a_state) / 4) 1)\<^sup>2
          \<le> Real_max" by blast
      from nonCritical_reactantStep_exact [OF pos d True f2 h(1,2,3)] pos True
      show ?thesis by (simp only: if_True simp_thms)
    next
      case False
      then have big: "Real_max < m_eps S * real_of_int (population K (rs ! 0) x a_state)"
        by simp
      from nonCritical_reactantStep_overflow [OF pos d big h(1,2,3)] False
      show ?thesis by (simp only: if_False simp_thms)
    qed
  next
    case False
    then show ?thesis by (simp add: nonCritical_reactantStep_skip)
  qed
  have bound: "?G x d \<le> Real_max" if "d \<le> Real_max" for x d
    using that by (simp add: min_def)
  from False have "getNonCriticalTimeStep K S a_state rs a =
      fold (nonCritical_reactantStep K S a_state rs a) ?xs (Finite Real_max)"
    by (simp add: getNonCriticalTimeStep_def Let_def)
  also have "\<dots> = Finite (fold ?G ?xs Real_max)"
    by (rule fold_Finite [where B = Real_max]) (simp_all only: step bound order_refl)
  also have "fold ?G ?xs Real_max = Min (insert Real_max (?g ` {x \<in> set ?xs. ?P x}))"
    by (rule fold_min_filter_Min)
  finally show ?thesis by (simp only: remdups_adj_set)
qed

text \<open>
  At the default \<open>eps\<close>, the largest \<open>Real\<close>, the product \<open>eps * Xi\<close> overflows from the
  population 2 on, \<open>f\<close> and both quotients are infinities, and the species gives no
  bound: on one decay with population 10 the step is the largest \<open>Real\<close>.
\<close>

lemma getNonCriticalTimeStep_default_eps:
  "getNonCriticalTimeStep KMCSingle (KMCSolver_define [KMCSingleStateReaction_new [0] [] 1])
     \<lparr>m_state = [10]\<rparr> [KMCSingleStateReaction_new [0] [] 1] [10] = Finite Real_max"
proof -
  have big: "Real_max < Real_max * 10" using Real_max_pos by simp
  have ten: "(10::real) \<le> Real_max" "- Real_max \<le> (10::real)"
    using le_Real_max [of 10] Real_max_pos by simp_all
  have o: "Real_overflow 10 = Finite 10" "Real_overflow (- 10) = Finite (- 10)"
    using ten by (simp_all add: Real_overflow_def)
  show ?thesis
    by (simp add: getNonCriticalTimeStep_def nonCritical_reactantStep_def nonCritical_mu_def
          nonCritical_sigma2_def KMCSingle_def KMCSingleStateReaction_population_def
          KMCSingleStateReaction_getReactants_def KMCSingleStateReaction_getStateChange_def
          Single_new_fields map_count_def KMCSolver_define_def Let_def T_wrap_numeral
          Real_overflow_def [of "Real_max * 10"] big o std_max_def std_min_def
          Real_min_less_numeral)
qed

lemma advanceTau_substep_valid:
  "advanceTau_substep fuel valid step a_state curDt rng = Some (Inr (state, dt, rng')) \<Longrightarrow>
   valid state"
proof (induction fuel arbitrary: curDt rng)
  case 0
  then show ?case by simp
next
  case (Suc fuel)
  then show ?case
    by (auto split: option.splits sum.splits prod.splits if_splits)
qed

lemma advanceTau_loop_valid:
  "advanceTau_loop fuel valid step a_dt a_state curTime rng = Some (Inr (state, rng')) \<Longrightarrow>
   valid a_state \<Longrightarrow> valid state"
proof (induction fuel arbitrary: a_state curTime rng)
  case 0
  then show ?case by simp
next
  case (Suc fuel)
  show ?case
  proof (cases "curTime < a_dt")
    case False
    with Suc.prems show ?thesis by simp
  next
    case True
    with Suc.prems obtain s1 dt1 rng1 where
      sub: "advanceTau_substep fuel valid step a_state (a_dt - curTime) rng = Some (Inr (s1, dt1, rng1))"
      and rest: "advanceTau_loop fuel valid step a_dt s1 (curTime + dt1) rng1 = Some (Inr (state, rng'))"
      by (auto split: option.splits sum.splits prod.splits)
    from advanceTau_substep_valid [OF sub] have "valid s1" .
    with Suc.IH [OF rest] show ?thesis .
  qed
qed

lemma advanceTau_returns_valid_state:
  assumes "advanceTau fuel K dgesv S a_state a_reactions a_dt a_leapPropagator rng =
             Some (Inr (state, rng'))"
    and "isValidState K a_state"
  shows "isValidState K state"
proof (cases "length a_reactions > 0")
  case True
  with assms(1) have "advanceTau_loop fuel (isValidState K)
      (advanceTau_step fuel K dgesv S a_reactions a_leapPropagator) a_dt a_state 0 rng =
      Some (Inr (state, rng'))"
    by (simp add: advanceTau_def)
  from advanceTau_loop_valid [OF this assms(2)] show ?thesis .
next
  case False
  with assms show ?thesis by (simp add: advanceTau_def)
qed

text \<open>
  The call \<open>advanceTau(..., ExplicitEuler)\<close> inside \<open>stepImplicitEuler\<close> is the general
  \<open>advanceTau\<close> at that selector.
\<close>

lemma advanceTau_ExplicitEuler_eq:
  "advanceTau fuel K dgesv S a_state a_reactions a_dt ExplicitEuler rng =
   advanceTau_ExplicitEuler fuel K a_state a_reactions a_dt rng"
proof -
  have "advanceTau_step fuel K dgesv S a_reactions ExplicitEuler =
        (\<lambda>state curDt r. Some (stepExplicitEuler K state a_reactions curDt r))"
    by (intro ext) (simp add: advanceTau_step_def)
  then show ?thesis by (simp add: advanceTau_def advanceTau_ExplicitEuler_def)
qed

text \<open>
  Whatever the inputs, the leap-size bound is a number, at most the largest \<open>Real\<close>: the
  sums \<open>mu\<close> and \<open>sigma2\<close> are of absolute values, so they are non-negative numbers or
  \<open>+inf\<close>; \<open>f\<close> is at least 1 or \<open>+inf\<close>; the two quotients are then non-negative
  numbers, \<open>+inf\<close> or NaN, and \<open>std::min\<close> with the running \<open>dt\<close> keeps \<open>dt\<close> against the
  last two.
\<close>

lemma ext_plus_abs_nonneg:
  assumes "(\<exists>x\<ge>0. acc = Finite x) \<or> acc = PlusInf"
  shows "(\<exists>x\<ge>0. ext_plus acc (ext_abs (Real_overflow z)) = Finite x) \<or>
         ext_plus acc (ext_abs (Real_overflow z)) = PlusInf"
proof -
  have t: "(\<exists>y\<ge>0. ext_abs (Real_overflow z) = Finite y) \<or> ext_abs (Real_overflow z) = PlusInf"
    by (auto simp: Real_overflow_def)
  from assms t show ?thesis
    using Real_max_pos by (auto simp: Real_overflow_def)
qed

lemma fold_ext_plus_abs_nonneg:
  assumes "(\<exists>x\<ge>0. acc = Finite x) \<or> acc = PlusInf"
  shows "(\<exists>x\<ge>0. fold (\<lambda>j acc. ext_plus acc (ext_abs (Real_overflow (h j)))) js acc = Finite x) \<or>
         fold (\<lambda>j acc. ext_plus acc (ext_abs (Real_overflow (h j)))) js acc = PlusInf"
  using assms
proof (induction js arbitrary: acc)
  case Nil
  then show ?case by simp
next
  case (Cons j js)
  from ext_plus_abs_nonneg [OF Cons.prems, of "h j"] Cons.IH show ?case by simp
qed

lemma nonCritical_sums_nonneg:
  "(\<exists>x\<ge>0. nonCritical_mu K rs a i = Finite x) \<or> nonCritical_mu K rs a i = PlusInf"
  "(\<exists>x\<ge>0. nonCritical_sigma2 K rs a i = Finite x) \<or> nonCritical_sigma2 K rs a i = PlusInf"
  unfolding nonCritical_mu_def nonCritical_sigma2_def Let_def
  by (rule fold_ext_plus_abs_nonneg, simp)+

lemma Real_overflow_nonneg:
  assumes "c \<le> x" and "0 \<le> c"
  shows "(\<exists>y\<ge>c. Real_overflow x = Finite y) \<or> Real_overflow x = PlusInf"
proof -
  have "\<not> x < - Real_max" using assms Real_max_pos by linarith
  with assms(1) show ?thesis by (simp add: Real_overflow_def)
qed

lemma nonCritical_factor_range:
  "(\<exists>x\<ge>1. std_max (ext_div (Real_overflow z) (Finite 4)) (Finite 1) = Finite x) \<or>
   std_max (ext_div (Real_overflow z) (Finite 4)) (Finite 1) = PlusInf"
proof -
  have "Real_overflow z = PlusInf \<or> Real_overflow z = MinusInf \<or> Real_overflow z = Finite z"
    by (simp add: Real_overflow_def)
  then consider (p) "Real_overflow z = PlusInf" | (m) "Real_overflow z = MinusInf"
    | (f) "Real_overflow z = Finite z"
    by blast
  then show ?thesis
  proof cases
    case p
    then show ?thesis by (simp add: std_max_def)
  next
    case m
    then show ?thesis by (simp add: std_max_def)
  next
    case f
    have "ext_div (Finite z) (Finite 4) = PlusInf \<or> ext_div (Finite z) (Finite 4) = MinusInf \<or>
          ext_div (Finite z) (Finite 4) = Finite (z / 4)"
      by (simp add: Real_overflow_def)
    then consider (a) "ext_div (Finite z) (Finite 4) = PlusInf"
      | (b) "ext_div (Finite z) (Finite 4) = MinusInf"
      | (c) "ext_div (Finite z) (Finite 4) = Finite (z / 4)"
      by blast
    then show ?thesis
    proof cases
      case a
      with f show ?thesis by (simp add: std_max_def)
    next
      case b
      with f show ?thesis by (simp add: std_max_def)
    next
      case c
      show ?thesis
      proof (cases "z / 4 < 1")
        case True
        with f c show ?thesis by (simp only: std_max_def ext_less.simps if_True) simp
      next
        case False
        then have "1 \<le> z / 4" by simp
        with f c False show ?thesis by (simp only: std_max_def ext_less.simps if_False) blast
      qed
    qed
  qed
qed

lemma ext_div_range:
  assumes "(\<exists>x\<ge>1. f = Finite x) \<or> f = PlusInf"
    and "(\<exists>x\<ge>0. m = Finite x) \<or> m = PlusInf"
    and "ext_less (Finite Real_min) m"
  shows "(\<exists>x\<ge>0. ext_div f m = Finite x) \<or> ext_div f m = PlusInf \<or> ext_div f m = NaN"
proof -
  have q: "(\<exists>w\<ge>0. Real_overflow (x / y) = Finite w) \<or> Real_overflow (x / y) = PlusInf"
    if "1 \<le> x" "0 < y" for x y :: real
  proof -
    have "0 \<le> x / y" using that by simp
    from Real_overflow_nonneg [OF this] show ?thesis by simp
  qed
  from assms(1) show ?thesis
  proof
    assume "\<exists>x\<ge>1. f = Finite x"
    then obtain x where x: "1 \<le> x" "f = Finite x" by blast
    from assms(2) show ?thesis
    proof
      assume "\<exists>y\<ge>0. m = Finite y"
      then obtain y where y: "m = Finite y" by blast
      with assms(3) Real_min_pos have "0 < y" by simp
      from q [OF x(1) this] Real_overflow_nonneg [of 0 "x / y"] x y \<open>0 < y\<close> show ?thesis
        by auto
    next
      assume "m = PlusInf"
      with x show ?thesis by simp
    qed
  next
    assume fp: "f = PlusInf"
    from assms(2) show ?thesis
    proof
      assume "\<exists>y\<ge>0. m = Finite y"
      with fp show ?thesis by auto
    next
      assume "m = PlusInf"
      with fp show ?thesis by simp
    qed
  qed
qed

lemma ext_times_range:
  assumes "(\<exists>x\<ge>1. f = Finite x) \<or> f = PlusInf"
  shows "(\<exists>x\<ge>1. ext_times f f = Finite x) \<or> ext_times f f = PlusInf"
  using assms
proof
  assume "\<exists>x\<ge>1. f = Finite x"
  then obtain x where x: "1 \<le> x" "f = Finite x" by blast
  have "1 \<le> x * x" using mult_mono [of 1 x 1 x] x(1) by simp
  from Real_overflow_nonneg [OF this] x(2) show ?thesis by simp
next
  assume "f = PlusInf"
  then show ?thesis by simp
qed

lemma std_min_range:
  assumes "(\<exists>x\<ge>0. p = Finite x) \<or> p = PlusInf \<or> p = NaN"
    and "(\<exists>x\<ge>0. q = Finite x) \<or> q = PlusInf \<or> q = NaN"
  shows "(\<exists>x\<ge>0. std_min p q = Finite x) \<or> std_min p q = PlusInf \<or> std_min p q = NaN"
  using assms by (auto simp: std_min_def)

lemma std_min_Finite:
  assumes "(\<exists>x\<ge>0. p = Finite x) \<or> p = PlusInf \<or> p = NaN" and "d \<le> Real_max"
  shows "\<exists>d'\<le>Real_max. std_min (Finite d) p = Finite d'"
  using assms by (auto simp: std_min_def)

lemma nonCritical_reactantStep_Finite:
  assumes "d \<le> Real_max"
  shows "\<exists>d'\<le>Real_max. nonCritical_reactantStep K S a_state rs a i (Finite d) = Finite d'"
proof (cases "0 < population K (rs ! 0) i a_state")
  case False
  with assms show ?thesis by (simp add: nonCritical_reactantStep_skip)
next
  case True
  define mu where "mu = nonCritical_mu K rs a i"
  define sigma2 where "sigma2 = nonCritical_sigma2 K rs a i"
  define f where "f = std_max (ext_div (Real_overflow (m_eps S *
      real_of_int (population K (rs ! 0) i a_state))) (Finite 4)) (Finite 1)"
  define dt1 where "dt1 = (if ext_less (Finite Real_min) mu then ext_div f mu else Finite Real_max)"
  define dt2 where "dt2 = (if ext_less (Finite Real_min) sigma2 then ext_div (ext_times f f) sigma2
                           else Finite Real_max)"
  have m: "(\<exists>x\<ge>0. mu = Finite x) \<or> mu = PlusInf"
    and v: "(\<exists>x\<ge>0. sigma2 = Finite x) \<or> sigma2 = PlusInf"
    unfolding mu_def sigma2_def by (rule nonCritical_sums_nonneg)+
  have fc: "(\<exists>x\<ge>1. f = Finite x) \<or> f = PlusInf"
    unfolding f_def by (rule nonCritical_factor_range)
  have rm: "(\<exists>x\<ge>0. Finite Real_max = Finite x)" using Real_max_pos by simp
  have c1: "(\<exists>x\<ge>0. dt1 = Finite x) \<or> dt1 = PlusInf \<or> dt1 = NaN"
    unfolding dt1_def using ext_div_range [OF fc m] rm by (cases "ext_less (Finite Real_min) mu") auto
  have c2: "(\<exists>x\<ge>0. dt2 = Finite x) \<or> dt2 = PlusInf \<or> dt2 = NaN"
  proof -
    from ext_times_range [OF fc] have "(\<exists>x\<ge>1. ext_times f f = Finite x) \<or> ext_times f f = PlusInf" .
    from ext_div_range [OF this v] rm show ?thesis
      unfolding dt2_def by (cases "ext_less (Finite Real_min) sigma2") auto
  qed
  have "nonCritical_reactantStep K S a_state rs a i (Finite d) = std_min (Finite d) (std_min dt1 dt2)"
    using True by (simp only: nonCritical_reactantStep_def Let_def mu_def sigma2_def f_def dt1_def
        dt2_def if_True)
  with std_min_Finite [OF std_min_range [OF c1 c2] assms] show ?thesis by simp
qed

lemma getNonCriticalTimeStep_Finite:
  "\<exists>d\<le>Real_max. getNonCriticalTimeStep K S a_state rs a = Finite d"
proof -
  have "\<exists>d'\<le>Real_max. fold (nonCritical_reactantStep K S a_state rs a) xs (Finite d) = Finite d'"
    if "d \<le> Real_max" for xs d
    using that
  proof (induction xs arbitrary: d)
    case Nil
    then show ?case by simp
  next
    case (Cons x xs)
    from nonCritical_reactantStep_Finite [OF Cons.prems, of K S a_state rs a x] obtain d1 where
      "d1 \<le> Real_max" "nonCritical_reactantStep K S a_state rs a x (Finite d) = Finite d1"
      by blast
    with Cons.IH [of d1] show ?case by simp
  qed
  from this [of Real_max] show ?thesis
    by (simp add: getNonCriticalTimeStep_def Let_def)
qed
section \<open>Evaluating the model\<close>

lemma factorial_nonneg: "0 \<le> N \<Longrightarrow> N \<le> 20 \<Longrightarrow> factorial N = int (fact (nat N))"
  using factorial_fact [of "nat N"] by simp

text \<open>The equations that unfold the classes on concrete reactions and states.\<close>

lemmas kmc_eval =
  KMCSingleStateReaction_new_def KMCSingleStateReaction_computeStateChanges_def
  KMCDualStateReaction_new_def KMCDualStateReaction_computeStateChanges_def
  map_count_def factorial_nonneg Let_def
  KMCSingle_def KMCDual_def
  KMCSingleStateReaction_propensity_def
  KMCSingleStateReaction_computeCriticalNumberOfReactions_def
  KMCSingleStateReaction_getReactants_def KMCSingleStateReaction_population_def
  KMCSingleStateReaction_getStateChange_def KMCSingleStateReaction_advanceState_def
  KMCSingleState_isValidState_def KMCSingleState_linearOut_def KMCSingleState_linearIn_def
  KMCDualStateReaction_propensity_def
  KMCDualStateReaction_computeCriticalNumberOfReactions_def
  KMCDualStateReaction_getReactants_def KMCDualStateReaction_population_def
  KMCDualStateReaction_getStateChange_def KMCDualStateReaction_advanceState_def
  KMCDualState_isValidState_def KMCDualState_linearOut_def KMCDualState_linearIn_def
  T_div_def T_max_def T_wrap_numeral

section \<open>The hybrid advance on the two decays\<close>

lemma ln_recip_bounds:
  assumes "0 < (u::real)"
  shows "1 - u \<le> ln (1 / u)" and "ln (1 / u) \<le> 1 / u - 1"
proof -
  from assms have "ln u \<le> u - 1" by (rule ln_le_minus_one)
  moreover from assms have "ln (1 / u) = - ln u" by (simp add: ln_div)
  ultimately show "1 - u \<le> ln (1 / u)" by simp
  from assms have "0 < 1 / u" by simp
  then show "ln (1 / u) \<le> 1 / u - 1" by (rule ln_le_minus_one)
qed

lemma Real_min_small: "Real_min \<le> 1 / 8"
  by (simp add: Real_min_def)

lemma hybrid_draws_simps:
  "hybrid_draws 0 = 1 / 2" "hybrid_draws (Suc 0) = 3 / 4" "hybrid_draws 2 = 0"
  "hybrid_draws 3 = 1 / 8"
  by (simp_all add: hybrid_draws_def)

lemma dtCrit_big: "1 / 4 < ln (1 / (Real_min + 1 / 2)) / Real_min"
proof -
  have u: "0 < Real_min + 1 / 2" using Real_min_pos by simp
  from ln_recip_bounds(1) [OF u] Real_min_small
  have "1 / 4 < ln (1 / (Real_min + 1 / 2))" by simp
  moreover have "ln (1 / (Real_min + 1 / 2)) \<le> ln (1 / (Real_min + 1 / 2)) / Real_min"
  proof -
    from calculation have "0 \<le> ln (1 / (Real_min + 1 / 2))" by simp
    then have "ln (1 / (Real_min + 1 / 2)) * Real_min \<le> ln (1 / (Real_min + 1 / 2)) * 1"
      using Real_min_less_one by (intro mult_left_mono) simp_all
    then show ?thesis using Real_min_pos by (simp add: pos_le_divide_eq)
  qed
  ultimately show ?thesis by (rule less_le_trans)
qed

lemma dtReact1: "0 \<le> ln (1 / (Real_min + 3 / 4)) / 5" "ln (1 / (Real_min + 3 / 4)) / 5 < 1 / 8"
proof -
  have u: "0 < Real_min + 3 / 4" using Real_min_pos by simp
  have "1 / (Real_min + 3 / 4) \<le> 1 / (3 / 4)"
    using Real_min_pos by (intro divide_left_mono) simp_all
  with ln_recip_bounds(2) [OF u] have "ln (1 / (Real_min + 3 / 4)) \<le> 1 / 3" by simp
  then show "ln (1 / (Real_min + 3 / 4)) / 5 < 1 / 8" by simp
  from ln_recip_bounds(1) [OF u] Real_min_small
  show "0 \<le> ln (1 / (Real_min + 3 / 4)) / 5" by simp
qed

lemma dtReact2: "1 / 8 \<le> ln (1 / (Real_min + 1 / 8)) / 4"
proof -
  have u: "0 < Real_min + 1 / 8" using Real_min_pos by simp
  from ln_recip_bounds(1) [OF u] Real_min_small show ?thesis by simp
qed

lemma hybrid_partition:
  "partitionReactions KMCSingle hybrid_solver \<lparr>m_state = [0, 5]\<rparr> hybrid_reactions =
     ([], hybrid_reactions)"
  by (simp add: partitionReactions_filter hybrid_solver_def hybrid_reactions_def
        setSolverParameters_def KMCSolver_define_def kmc_eval)

lemma hybrid_bounds:
  "1 / 4 < hybrid_dtCrit" "0 \<le> hybrid_dtReact1" "hybrid_dtReact1 < 1 / 8"
  "\<not> hybrid_dtReact1 + hybrid_dtReact2 < 1 / 8"
  using dtCrit_big dtReact1 dtReact2
  by (simp_all add: hybrid_dtCrit_def hybrid_dtReact1_def hybrid_dtReact2_def)

lemma hybrid_getCriticalTimeStep_propensities:
  "getCriticalTimeStep_propensities [] (hybrid_rng 0) = (Finite hybrid_dtCrit, hybrid_rng 1)"
proof -
  have u: "\<not> Real_min + 1 / 2 < 0" "Real_min + 1 / 2 \<noteq> 0" "Real_min \<noteq> 0"
    using Real_min_pos by simp_all
  show ?thesis
    unfolding hybrid_dtCrit_def
    by (simp add: getCriticalTimeStep_propensities_def getCriticalTimeStep_def
          getUniformReal01_def hybrid_rng_def hybrid_draws_simps Let_def u IEEE_div_def)
qed

lemma hybrid_dtNonCrit:
  "getNonCriticalTimeStep KMCSingle hybrid_solver \<lparr>m_state = [0, 5]\<rparr> hybrid_reactions [0, 5] =
     Finite (1 / 4)"
proof -
  let ?s = "\<lparr>m_state = [0, 5]\<rparr>"
  have eps: "m_eps hybrid_solver = 1"
    by (simp add: hybrid_solver_def setSolverParameters_def KMCSolver_define_def)
  have skip: "nonCritical_reactantStep KMCSingle hybrid_solver ?s hybrid_reactions [0, 5] 0
                (Finite Real_max) = Finite Real_max"
    by (rule nonCritical_reactantStep_skip) (simp add: hybrid_reactions_def kmc_eval)
  have X: "population KMCSingle (hybrid_reactions ! 0) 1 ?s = 5"
    by (simp add: hybrid_reactions_def kmc_eval)
  have M: "(\<Sum>j<length hybrid_reactions.
              \<bar>real_of_int (getStateChange KMCSingle (hybrid_reactions ! j) 1) * [0, 5] ! j\<bar>) = 5"
    by (simp add: hybrid_reactions_def kmc_eval lessThan_Suc numeral_2_eq_2)
  have V: "(\<Sum>j<length hybrid_reactions.
              \<bar>(real_of_int (getStateChange KMCSingle (hybrid_reactions ! j) 1))\<^sup>2 * [0, 5] ! j\<bar>) = 5"
    by (simp add: hybrid_reactions_def kmc_eval lessThan_Suc numeral_2_eq_2)
  have h1: "0 < population KMCSingle (hybrid_reactions ! 0) 1 ?s" unfolding X by simp
  have h3: "m_eps hybrid_solver * real_of_int (population KMCSingle (hybrid_reactions ! 0) 1 ?s)
              \<le> Real_max"
    unfolding X eps by (rule le_Real_max) simp
  have h4: "(max (m_eps hybrid_solver *
                real_of_int (population KMCSingle (hybrid_reactions ! 0) 1 ?s) / 4) 1)\<^sup>2
              \<le> Real_max"
    unfolding X eps by (rule le_Real_max) (simp add: power2_eq_square)
  have h5: "(\<Sum>j<length hybrid_reactions.
              \<bar>real_of_int (getStateChange KMCSingle (hybrid_reactions ! j) 1) * [0, 5] ! j\<bar>)
              \<le> Real_max"
    unfolding M by (rule le_Real_max) simp
  have h6: "(\<Sum>j<length hybrid_reactions.
              \<bar>(real_of_int (getStateChange KMCSingle (hybrid_reactions ! j) 1))\<^sup>2 * [0, 5] ! j\<bar>)
              \<le> Real_max"
    unfolding V by (rule le_Real_max) simp
  have h7: "\<forall>j<length hybrid_reactions.
              (getStateChange KMCSingle (hybrid_reactions ! j) 1)\<^sup>2 \<le> T_max"
    by (simp add: hybrid_reactions_def kmc_eval less_Suc_eq numeral_2_eq_2)
  note nonCritical_reactantStep_exact [OF h1 order_refl h3 h4 h5 h6 h7]
  also have "Finite (min Real_max
          (min (if Real_min < (\<Sum>j<length hybrid_reactions.
                     \<bar>real_of_int (getStateChange KMCSingle (hybrid_reactions ! j) 1) * [0, 5] ! j\<bar>)
                then max (m_eps hybrid_solver *
                       real_of_int (population KMCSingle (hybrid_reactions ! 0) 1 ?s) / 4) 1 /
                     (\<Sum>j<length hybrid_reactions.
                       \<bar>real_of_int (getStateChange KMCSingle (hybrid_reactions ! j) 1) * [0, 5] ! j\<bar>)
                else Real_max)
               (if Real_min < (\<Sum>j<length hybrid_reactions.
                     \<bar>(real_of_int (getStateChange KMCSingle (hybrid_reactions ! j) 1))\<^sup>2 * [0, 5] ! j\<bar>)
                then (max (m_eps hybrid_solver *
                       real_of_int (population KMCSingle (hybrid_reactions ! 0) 1 ?s) / 4) 1)\<^sup>2 /
                     (\<Sum>j<length hybrid_reactions.
                       \<bar>(real_of_int (getStateChange KMCSingle (hybrid_reactions ! j) 1))\<^sup>2 * [0, 5] ! j\<bar>)
                else Real_max))) = Finite (1 / 4)"
    unfolding X M V eps by (simp add: Real_eval power2_eq_square)
  finally have step: "nonCritical_reactantStep KMCSingle hybrid_solver ?s hybrid_reactions [0, 5] 1
          (Finite Real_max) = Finite (1 / 4)" .
  have "getNonCriticalTimeStep KMCSingle hybrid_solver ?s hybrid_reactions [0, 5] =
        nonCritical_reactantStep KMCSingle hybrid_solver ?s hybrid_reactions [0, 5] 1
          (nonCritical_reactantStep KMCSingle hybrid_solver ?s hybrid_reactions [0, 5] 0
             (Finite Real_max))"
    by (simp add: getNonCriticalTimeStep_def hybrid_reactions_def kmc_eval)
  with skip step show ?thesis by simp
qed


lemma hybrid_solver_fields:
  "m_numSSA hybrid_solver = 2" "m_SSAlim hybrid_solver = 1" "m_Ncrit hybrid_solver = 0"
  "m_eps hybrid_solver = 1"
  by (simp_all add: hybrid_solver_def setSolverParameters_def KMCSolver_define_def)

lemma hybrid_propensities:
  "propensities KMCSingle \<lparr>m_state = [0, 5]\<rparr> hybrid_reactions = [0, 5]"
  "propensities KMCSingle \<lparr>m_state = [- 1, 5]\<rparr> hybrid_reactions = [- 1, 5]"
  "propensities KMCSingle \<lparr>m_state = [0, 5]\<rparr> [] = []"
  "totalPropensity KMCSingle \<lparr>m_state = [0, 5]\<rparr> hybrid_reactions = 5"
  by (simp_all add: propensities_def totalPropensity_def hybrid_reactions_def kmc_eval)

lemma hybrid_getCriticalTimeStep1:
  "getCriticalTimeStep 5 (hybrid_rng (Suc 0)) = (Finite hybrid_dtReact1, hybrid_rng 2)"
proof -
  have u: "\<not> Real_min + 3 / 4 < 0" "Real_min + 3 / 4 \<noteq> 0"
    using Real_min_pos by simp_all
  show ?thesis
    unfolding hybrid_dtReact1_def
    by (simp add: getCriticalTimeStep_def getUniformReal01_def hybrid_rng_def
          hybrid_draws_simps Let_def u IEEE_div_def numeral_2_eq_2)
qed

lemma hybrid_getCriticalTimeStep2:
  "getCriticalTimeStep 4 (hybrid_rng 3) = (Finite hybrid_dtReact2, hybrid_rng 4)"
proof -
  have u: "\<not> Real_min + 1 / 8 < 0" "Real_min + 1 / 8 \<noteq> 0"
    using Real_min_pos by simp_all
  have n: "Suc 3 = 4" by simp
  show ?thesis
    unfolding hybrid_dtReact2_def
    by (simp add: getCriticalTimeStep_def getUniformReal01_def hybrid_rng_def
          hybrid_draws_simps Let_def u IEEE_div_def n)
qed

lemma hybrid_stepSSA:
  "stepSSA KMCSingle \<lparr>m_state = [0, 5]\<rparr> hybrid_reactions [0, 5] (hybrid_rng 2) =
     Inr (\<lparr>m_state = [- 1, 5]\<rparr>, hybrid_rng 3)"
proof -
  have n: "Suc 2 = 3" by simp
  show ?thesis
    by (simp add: stepSSA_def getUniformReal01_def hybrid_rng_def hybrid_draws_simps
          hybrid_reactions_def kmc_eval n)
qed

lemma hybrid_SSA_second:
  "advanceHybrid_SSA KMCSingle hybrid_solver hybrid_reactions (1 / 8) \<lparr>m_state = [- 1, 5]\<rparr>
     hybrid_dtReact1 1 (hybrid_rng 3) =
   Inr (\<lparr>m_state = [- 1, 5]\<rparr>, 1 / 8, hybrid_rng 4)"
  apply (subst advanceHybrid_SSA.simps)
  apply (simp only: hybrid_solver_fields hybrid_propensities)
  apply (simp add: hybrid_bounds hybrid_bounds [simplified] hybrid_getCriticalTimeStep2
           del: advanceHybrid_SSA.simps)
  done

lemma hybrid_SSA_first:
  "advanceHybrid_SSA KMCSingle hybrid_solver hybrid_reactions (1 / 8) \<lparr>m_state = [0, 5]\<rparr>
     0 0 (hybrid_rng (Suc 0)) =
   Inr (\<lparr>m_state = [- 1, 5]\<rparr>, 1 / 8, hybrid_rng 4)"
  apply (subst advanceHybrid_SSA.simps)
  apply (simp only: hybrid_solver_fields hybrid_propensities)
  apply (simp only: hybrid_getCriticalTimeStep1 hybrid_stepSSA hybrid_SSA_second
           Let_def split_conv fold.simps upt_conv_Cons)
  apply (simp add: hybrid_bounds hybrid_bounds [simplified] hybrid_getCriticalTimeStep1
           hybrid_stepSSA hybrid_SSA_second del: advanceHybrid_SSA.simps)
  done



section \<open>The implicit Euler step on the decay\<close>

text \<open>
  On the decay with populations \<open>[10]\<close>, \<open>dt = 1\<close> and the Poisson draw 5, the constant
  term is \<open>C = 15\<close>, the first guess \<open>X = 5\<close> and the residual \<open>F(X) = X - 15 + round(X)\<close>.
  The Jacobian is 2 at every iterate, and an iterate between \<open>29/4\<close> and \<open>31/4\<close> is
  followed by one in the same interval whose residual is at least \<open>1/2\<close>: the
  iteration never meets the tolerance.
\<close>

lemma implicit_solver_default: "implicit_solver 100 = KMCSolver_define implicit_reactions"
  by (simp add: implicit_solver_def setSolverParameters_def KMCSolver_define_def)

lemma implicit_getNu: "getNu KMCSingle \<lparr>m_state = [10]\<rparr> implicit_reactions = Inr [[- 1]]"
  by (simp add: implicit_reactions_def kmc_eval)

lemma implicit_explicitEuler:
  "advanceTau_ExplicitEuler 2 KMCSingle \<lparr>m_state = [10]\<rparr> implicit_reactions 1 (implicit_rng 0) =
     Some (Inr (\<lparr>m_state = [5]\<rparr>, implicit_rng 1))"
  by (simp add: advanceTau_ExplicitEuler_def numeral_2_eq_2 stepExplicitEuler_def
        propensities_def getPoisson_def implicit_rng_def implicit_reactions_def kmc_eval)

lemma implicit_computeF:
  "implicitEuler_computeF KMCSingle (implicit_solver n) \<lparr>m_state = [10]\<rparr> [[- 1]] (Suc 0) (Suc 0) 1 [x] [15] =
     [x - 15 + real_of_int (llround x)]"
  by (simp add: implicitEuler_computeF_def propensities_def implicit_solver_def
        setSolverParameters_def KMCSolver_define_def implicit_reactions_def kmc_eval)

lemma implicit_computeNorm:
  "implicitEuler_computeNorm KMCSingle (implicit_solver n) \<lparr>m_state = [10]\<rparr> [[- 1]] (Suc 0) (Suc 0) 1 [x] [15] =
     max 0 \<bar>x - 15 + real_of_int (llround x)\<bar>"
  by (simp add: implicitEuler_computeNorm_def implicit_computeF)

lemma implicit_jacobian:
  "implicitEuler_jacobian KMCSingle (implicit_solver n) \<lparr>m_state = [10]\<rparr> [[- 1]] (Suc 0) (Suc 0) 1 [x] [15] =
     [((x + max (0.01 * x) 1) - 15 + real_of_int (llround (x + max (0.01 * x) 1)) -
       (x - 15 + real_of_int (llround x))) / (x + max (0.01 * x) 1 - x)]"
  by (simp add: implicitEuler_jacobian_def implicit_computeF Let_def)

lemma implicit_solver_fields:
  "m_exitTol (implicit_solver n) = 1 / 10 ^ 6" "m_maxIter (implicit_solver n) = n"
  "m_reactions (implicit_solver n) = implicit_reactions"
  by (simp_all add: implicit_solver_def setSolverParameters_def KMCSolver_define_def)

lemma llround_eq:
  assumes "0 \<le> x" and "real_of_int a - 1 / 2 \<le> x" and "x < real_of_int a + 1 / 2"
  shows "llround x = a"
proof -
  have "\<lfloor>x + 1 / 2\<rfloor> = a"
    using assms(2,3) by (intro floor_unique) simp_all
  with assms(1) show ?thesis by (simp add: llround_def)
qed

lemma implicit_newton_unfold:
  assumes J: "implicitEuler_jacobian KMCSingle (implicit_solver m) \<lparr>m_state = [10]\<rparr> [[- 1]]
                (Suc 0) (Suc 0) 1 [x] [15] = [j]"
    and F: "implicitEuler_computeF KMCSingle (implicit_solver m) \<lparr>m_state = [10]\<rparr> [[- 1]]
                (Suc 0) (Suc 0) 1 [x] [15] = [f]"
    and j: "j \<noteq> 0"
    and x': "x' = x - f / j"
    and N: "\<not> implicitEuler_computeNorm KMCSingle (implicit_solver m) \<lparr>m_state = [10]\<rparr> [[- 1]]
                (Suc 0) (Suc 0) 1 [x'] [15] / 15 < 1 / 10 ^ 6"
  shows "implicitEuler_newton (Suc k) KMCSingle dgesv_1x1 (implicit_solver m) \<lparr>m_state = [10]\<rparr>
       [[- 1]] (Suc 0) (Suc 0) 1 [15] 15 [x] =
     implicitEuler_newton k KMCSingle dgesv_1x1 (implicit_solver m) \<lparr>m_state = [10]\<rparr>
       [[- 1]] (Suc 0) (Suc 0) 1 [15] 15 [x']"
proof -
  have d: "dgesv_1x1 (Suc 0) [j] [f] = ([f / j], 0)"
    using j by (simp add: dgesv_1x1_def)
  have X: "map (\<lambda>i. [x] ! i - [f / j] ! i) [0..<Suc 0] = [x']"
    by (simp add: x')
  have c: "\<not> ext_less (IEEE_div (implicitEuler_computeNorm KMCSingle (implicit_solver m)
              \<lparr>m_state = [10]\<rparr> [[- 1]] (Suc 0) (Suc 0) 1 [x'] [15]) 15)
            (Finite (m_exitTol (implicit_solver m)))"
    using N by (simp add: IEEE_div_def implicit_solver_fields)
  show ?thesis
    by (simp only: implicitEuler_newton.simps Let_def J F d split_conv X c if_False
          refl if_True not_True_eq_False simp_thms)
qed

lemma implicit_newton_step:
  assumes "29 / 4 \<le> x" and "x \<le> 31 / 4"
  shows "\<exists>x'. 29 / 4 \<le> x' \<and> x' \<le> 31 / 4 \<and>
     implicitEuler_newton (Suc k) KMCSingle dgesv_1x1 (implicit_solver m) \<lparr>m_state = [10]\<rparr>
       [[- 1]] (Suc 0) (Suc 0) 1 [15] 15 [x] =
     implicitEuler_newton k KMCSingle dgesv_1x1 (implicit_solver m) \<lparr>m_state = [10]\<rparr>
       [[- 1]] (Suc 0) (Suc 0) 1 [15] 15 [x']"
proof (cases "x < 15 / 2")
  case True
  have r: "llround x = 7" using assms True by (intro llround_eq) simp_all
  have r1: "llround (x + 1) = 8" using assms True by (intro llround_eq) simp_all
  have r': "llround ((x + 8) / 2) = 8" using assms True by (intro llround_eq) simp_all
  have h: "max (x / 100) 1 = 1" using assms by simp
  have J: "implicitEuler_jacobian KMCSingle (implicit_solver m) \<lparr>m_state = [10]\<rparr> [[- 1]]
                (Suc 0) (Suc 0) 1 [x] [15] = [2]"
    by (simp add: implicit_jacobian h r r1)
  have F: "implicitEuler_computeF KMCSingle (implicit_solver m) \<lparr>m_state = [10]\<rparr> [[- 1]]
                (Suc 0) (Suc 0) 1 [x] [15] = [x - 8]"
    unfolding implicit_computeF r by simp
  have x': "(x + 8) / 2 = x - (x - 8) / 2" by (simp add: field_simps)
  have N: "\<not> implicitEuler_computeNorm KMCSingle (implicit_solver m) \<lparr>m_state = [10]\<rparr> [[- 1]]
                (Suc 0) (Suc 0) 1 [(x + 8) / 2] [15] / 15 < 1 / 10 ^ 6"
    unfolding implicit_computeNorm r' using assms True by simp
  note step = implicit_newton_unfold [OF J F _ x' N, of k]
  show ?thesis
    by (rule exI [of _ "(x + 8) / 2"]) (use assms True step in simp)
next
  case False
  have r: "llround x = 8" using assms False by (intro llround_eq) simp_all
  have r1: "llround (x + 1) = 9" using assms False by (intro llround_eq) simp_all
  have r': "llround ((x + 7) / 2) = 7" using assms False by (intro llround_eq) simp_all
  have h: "max (x / 100) 1 = 1" using assms by simp
  have J: "implicitEuler_jacobian KMCSingle (implicit_solver m) \<lparr>m_state = [10]\<rparr> [[- 1]]
                (Suc 0) (Suc 0) 1 [x] [15] = [2]"
    by (simp add: implicit_jacobian h r r1)
  have F: "implicitEuler_computeF KMCSingle (implicit_solver m) \<lparr>m_state = [10]\<rparr> [[- 1]]
                (Suc 0) (Suc 0) 1 [x] [15] = [x - 7]"
    unfolding implicit_computeF r by simp
  have x': "(x + 7) / 2 = x - (x - 7) / 2" by (simp add: field_simps)
  have N: "\<not> implicitEuler_computeNorm KMCSingle (implicit_solver m) \<lparr>m_state = [10]\<rparr> [[- 1]]
                (Suc 0) (Suc 0) 1 [(x + 7) / 2] [15] / 15 < 1 / 10 ^ 6"
    unfolding implicit_computeNorm r' using assms False by simp
  note step = implicit_newton_unfold [OF J F _ x' N, of k]
  show ?thesis
    by (rule exI [of _ "(x + 7) / 2"]) (use assms False step in simp)
qed

lemma implicit_newton_invariant:
  assumes "29 / 4 \<le> x" and "x \<le> 31 / 4"
  shows "\<exists>x'. 29 / 4 \<le> x' \<and> x' \<le> 31 / 4 \<and>
     implicitEuler_newton k KMCSingle dgesv_1x1 (implicit_solver m) \<lparr>m_state = [10]\<rparr>
       [[- 1]] (Suc 0) (Suc 0) 1 [15] 15 [x] = ([x'], True)"
  using assms
proof (induction k arbitrary: x)
  case 0
  then show ?case by simp
next
  case (Suc k)
  from implicit_newton_step [OF Suc.prems, of k m] obtain x1 where
    x1: "29 / 4 \<le> x1" "x1 \<le> 31 / 4"
    and step: "implicitEuler_newton (Suc k) KMCSingle dgesv_1x1 (implicit_solver m)
       \<lparr>m_state = [10]\<rparr> [[- 1]] (Suc 0) (Suc 0) 1 [15] 15 [x] =
     implicitEuler_newton k KMCSingle dgesv_1x1 (implicit_solver m) \<lparr>m_state = [10]\<rparr>
       [[- 1]] (Suc 0) (Suc 0) 1 [15] 15 [x1]"
    by blast
  from Suc.IH [OF x1] step show ?case by simp
qed

lemma implicit_newton_first:
  "implicitEuler_newton (Suc k) KMCSingle dgesv_1x1 (implicit_solver m) \<lparr>m_state = [10]\<rparr>
     [[- 1]] (Suc 0) (Suc 0) 1 [15] 15 [5] =
   implicitEuler_newton k KMCSingle dgesv_1x1 (implicit_solver m) \<lparr>m_state = [10]\<rparr>
     [[- 1]] (Suc 0) (Suc 0) 1 [15] 15 [15 / 2]"
proof -
  have J: "implicitEuler_jacobian KMCSingle (implicit_solver m) \<lparr>m_state = [10]\<rparr> [[- 1]]
                (Suc 0) (Suc 0) 1 [5] [15] = [2]"
    by (simp add: implicit_jacobian llround_def)
  have F: "implicitEuler_computeF KMCSingle (implicit_solver m) \<lparr>m_state = [10]\<rparr> [[- 1]]
                (Suc 0) (Suc 0) 1 [5] [15] = [- 5]"
    by (simp add: implicit_computeF llround_def)
  have x': "(15 / 2 :: real) = 5 - (- 5) / 2" by simp
  have N: "\<not> implicitEuler_computeNorm KMCSingle (implicit_solver m) \<lparr>m_state = [10]\<rparr> [[- 1]]
                (Suc 0) (Suc 0) 1 [15 / 2] [15] / 15 < 1 / 10 ^ 6"
    by (simp add: implicit_computeNorm llround_def)
  show ?thesis by (rule implicit_newton_unfold [OF J F _ x' N]) simp
qed

lemma implicit_residual:
  assumes "29 / 4 \<le> x" and "x \<le> 31 / 4"
  shows "(llround x = 7 \<or> llround x = 8) \<and>
     1 / 30 \<le> implicitEuler_computeNorm KMCSingle (implicit_solver m) \<lparr>m_state = [10]\<rparr> [[- 1]]
        (Suc 0) (Suc 0) 1 [x] [15] / 15"
proof (cases "x < 15 / 2")
  case True
  have r: "llround x = 7" using assms True by (intro llround_eq) simp_all
  with assms True show ?thesis by (simp add: implicit_computeNorm)
next
  case False
  have r: "llround x = 8" using assms False by (intro llround_eq) simp_all
  with assms False show ?thesis by (simp add: implicit_computeNorm)
qed


lemma implicit_constantTerm:
  "implicitEuler_constantTerm [[- 1]] [10] (Suc 0) (Suc 0) 1 [5] = [15]"
  by (simp add: implicitEuler_constantTerm_def)

lemma implicit_initNorm:
  "implicitEuler_computeNorm KMCSingle (implicit_solver n) \<lparr>m_state = [10]\<rparr> [[- 1]]
     (Suc 0) (Suc 0) 1 [0] [15] = 15"
  by (simp add: implicit_computeNorm llround_def)

lemma implicit_propensities:
  "propensities KMCSingle \<lparr>m_state = [10]\<rparr> implicit_reactions = [10]"
  by (simp add: propensities_def implicit_reactions_def kmc_eval)

lemma implicit_lengths: "length implicit_reactions = Suc 0"
  by (simp add: implicit_reactions_def)

lemma implicit_step_unfold:
  assumes "implicitEuler_newton (nat n) KMCSingle dgesv_1x1 (implicit_solver n) \<lparr>m_state = [10]\<rparr>
     [[- 1]] (Suc 0) (Suc 0) 1 [15] 15 [5] = ([x], True)"
  shows "stepImplicitEuler 2 KMCSingle dgesv_1x1 (implicit_solver n) \<lparr>m_state = [10]\<rparr>
     implicit_reactions 1 (implicit_rng 0) =
     Some (Inr (\<lparr>m_state = [llround x]\<rparr>, implicit_rng 1))"
proof -
  have len: "length (linearOut KMCSingle \<lparr>m_state = [10]\<rparr>) = Suc 0"
    by (simp add: kmc_eval)
  have lin: "linearOut KMCSingle \<lparr>m_state = [5]\<rparr> = [5]"
    "\<And>v. linearIn KMCSingle \<lparr>m_state = [10]\<rparr> v = \<lparr>m_state = v\<rparr>"
    by (simp_all add: kmc_eval)
  have X0: "map (\<lambda>i. 1 * real_of_int ([5] ! i)) [0..<Suc 0] = [5]" by simp
  have out: "map (\<lambda>i. llround ([x] ! i)) [0..<Suc 0] = [llround x]" by simp
  have g: "\<not> (0 < Suc 0 \<and> length (m_reactions (implicit_solver n)) < Suc 0)"
    by (simp add: implicit_solver_fields implicit_lengths)
  show ?thesis
    unfolding stepImplicitEuler_def
    by (simp only: implicit_getNu implicit_propensities implicit_explicitEuler Let_def
          implicit_lengths len lin option.case sum.case split_conv)
       (simp add: implicit_constantTerm X0 implicit_initNorm implicit_solver_fields assms
          implicit_lengths)
qed


section \<open>Properties of \<open>advanceState\<close> and \<open>getNu\<close>\<close>

lemma Dual_keys_in_range:
  assumes "KMCDualStateReaction_constructed R" and "KMCDualStateReaction_sanityCheck R s"
  shows "list_all (\<lambda>p. fst p < length (m_reactiveState s)) (m_reactiveStateChange R)"
    and "list_all (\<lambda>p. fst p < length (m_nonReactiveState s)) (m_nonReactiveStateChange R)"
proof -
  have "fst p < length (m_reactiveState s)" if "p \<in> set (m_reactiveStateChange R)" for p
  proof -
    from that have "fst p \<in> set (map fst (m_reactiveStateChange R))" by simp
    then have "fst p \<in> set (m_lhsReactives R) \<union> set (m_rhsReactives R)"
      by (simp only: Dual_constructed_maps(3) [OF assms(1)])
    with assms(2) show ?thesis
      by (auto simp: KMCDualStateReaction_sanityCheck_def list_all_iff)
  qed
  then show "list_all (\<lambda>p. fst p < length (m_reactiveState s)) (m_reactiveStateChange R)"
    by (simp add: list_all_iff)
  have "fst p < length (m_nonReactiveState s)" if "p \<in> set (m_nonReactiveStateChange R)" for p
  proof -
    from that have "fst p \<in> set (map fst (m_nonReactiveStateChange R))" by simp
    then have "fst p \<in> set (m_rhsNonReactives R)"
      by (simp only: Dual_constructed_maps(4) [OF assms(1)])
    with assms(2) show ?thesis
      by (auto simp: KMCDualStateReaction_sanityCheck_def list_all_iff)
  qed
  then show "list_all (\<lambda>p. fst p < length (m_nonReactiveState s)) (m_nonReactiveStateChange R)"
    by (simp add: list_all_iff)
qed

lemma Single_keys_in_range:
  assumes "KMCSingleStateReaction_constructed R" and "KMCSingleStateReaction_inRange R s"
  shows "list_all (\<lambda>p. fst p < length (m_state s)) (m_stateChange R)"
proof -
  have "fst p < length (m_state s)" if "p \<in> set (m_stateChange R)" for p
  proof -
    from that have "fst p \<in> set (map fst (m_stateChange R))" by simp
    then have "fst p \<in> set (m_reactants R) \<union> set (m_products R)"
      by (simp only: Single_constructed_maps(2) [OF assms(1)])
    with assms(2) show ?thesis
      by (auto simp: KMCSingleStateReaction_inRange_def list_all_iff)
  qed
  then show ?thesis by (simp add: list_all_iff)
qed

lemma Dual_advanceState_Inr:
  "KMCDualStateReaction_advanceState NDEBUG R s n = Inr s' \<longleftrightarrow>
     (NDEBUG \<or> KMCDualStateReaction_sanityCheck R s \<and> KMCDualState_isValidState s \<and>
        KMCDualState_isValidState s') \<and>
     (\<exists>x y. advance_loop (m_reactiveStateChange R) n (m_reactiveState s) = Inr x \<and>
            advance_loop (m_nonReactiveStateChange R) n (m_nonReactiveState s) = Inr y \<and>
            s' = s\<lparr>m_reactiveState := x, m_nonReactiveState := y\<rparr>)"
  by (auto simp: KMCDualStateReaction_advanceState_def Let_def split: sum.splits)

lemma Single_advanceState_Inr:
  "KMCSingleStateReaction_advanceState R s n = Inr s' \<longleftrightarrow>
     (\<exists>x. advance_loop (m_stateChange R) n (m_state s) = Inr x \<and> s' = s\<lparr>m_state := x\<rparr>)"
  by (auto simp: KMCSingleStateReaction_advanceState_def split: sum.splits)

lemma Dual_advanceState_inverse:
  assumes "KMCDualStateReaction_advanceState NDEBUG R s n = Inr s'"
    and "list_all T_range (m_reactiveState s)"
    and "list_all T_range (m_nonReactiveState s)"
  shows "KMCDualStateReaction_advanceState NDEBUG R s' (- n) = Inr s"
proof -
  from assms(1) obtain x y where
    guard: "NDEBUG \<or> KMCDualStateReaction_sanityCheck R s \<and> KMCDualState_isValidState s \<and>
        KMCDualState_isValidState s'"
    and x: "advance_loop (m_reactiveStateChange R) n (m_reactiveState s) = Inr x"
    and y: "advance_loop (m_nonReactiveStateChange R) n (m_nonReactiveState s) = Inr y"
    and s': "s' = s\<lparr>m_reactiveState := x, m_nonReactiveState := y\<rparr>"
    unfolding Dual_advanceState_Inr by blast
  have bx: "advance_loop (m_reactiveStateChange R) (- n) x = Inr (m_reactiveState s)"
    by (rule advance_loop_inverse [OF x assms(2)])
  have ny: "advance_loop (m_nonReactiveStateChange R) (- n) y = Inr (m_nonReactiveState s)"
    by (rule advance_loop_inverse [OF y assms(3)])
  have len: "length x = length (m_reactiveState s)" "length y = length (m_nonReactiveState s)"
    using advance_loop_length [OF x] advance_loop_length [OF y] by simp_all
  have sc: "KMCDualStateReaction_sanityCheck R s' = KMCDualStateReaction_sanityCheck R s"
    by (simp add: KMCDualStateReaction_sanityCheck_def s' len)
  have restore: "s = s'\<lparr>m_reactiveState := m_reactiveState s,
                      m_nonReactiveState := m_nonReactiveState s\<rparr>"
    by (simp add: s')
  have "(NDEBUG \<or> KMCDualStateReaction_sanityCheck R s' \<and> KMCDualState_isValidState s' \<and>
           KMCDualState_isValidState s) \<and>
        (\<exists>x' y'. advance_loop (m_reactiveStateChange R) (- n) (m_reactiveState s') = Inr x' \<and>
            advance_loop (m_nonReactiveStateChange R) (- n) (m_nonReactiveState s') = Inr y' \<and>
            s = s'\<lparr>m_reactiveState := x', m_nonReactiveState := y'\<rparr>)"
  proof (intro conjI exI)
    show "NDEBUG \<or> KMCDualStateReaction_sanityCheck R s' \<and> KMCDualState_isValidState s' \<and>
           KMCDualState_isValidState s"
      using guard sc by blast
    show "advance_loop (m_reactiveStateChange R) (- n) (m_reactiveState s') =
            Inr (m_reactiveState s)"
      using bx by (simp add: s')
    show "advance_loop (m_nonReactiveStateChange R) (- n) (m_nonReactiveState s') =
            Inr (m_nonReactiveState s)"
      using ny by (simp add: s')
    show "s = s'\<lparr>m_reactiveState := m_reactiveState s,
                   m_nonReactiveState := m_nonReactiveState s\<rparr>"
      by (rule restore)
  qed
  then show ?thesis by (simp only: Dual_advanceState_Inr)
qed

lemma Single_advanceState_inverse:
  assumes "KMCSingleStateReaction_advanceState R s n = Inr s'"
    and "list_all T_range (m_state s)"
  shows "KMCSingleStateReaction_advanceState R s' (- n) = Inr s"
proof -
  from assms(1) obtain x where
    x: "advance_loop (m_stateChange R) n (m_state s) = Inr x" and s': "s' = s\<lparr>m_state := x\<rparr>"
    unfolding Single_advanceState_Inr by blast
  have "advance_loop (m_stateChange R) (- n) x = Inr (m_state s)"
    by (rule advance_loop_inverse [OF x assms(2)])
  then show ?thesis by (simp add: KMCSingleStateReaction_advanceState_def s')
qed

lemma Dual_advanceState_returns:
  assumes "KMCDualStateReaction_constructed R" and "KMCDualStateReaction_sanityCheck R s"
  shows "\<exists>s'. KMCDualStateReaction_advanceState True R s n = Inr s'"
proof -
  from advance_loop_returns [OF Dual_keys_in_range(1) [OF assms]] obtain x where
    x: "advance_loop (m_reactiveStateChange R) n (m_reactiveState s) = Inr x" by blast
  from advance_loop_returns [OF Dual_keys_in_range(2) [OF assms]] obtain y where
    y: "advance_loop (m_nonReactiveStateChange R) n (m_nonReactiveState s) = Inr y" by blast
  from x y show ?thesis by (simp add: KMCDualStateReaction_advanceState_def)
qed

lemma Single_advanceState_returns:
  assumes "KMCSingleStateReaction_constructed R" and "KMCSingleStateReaction_inRange R s"
  shows "\<exists>s'. KMCSingleStateReaction_advanceState R s n = Inr s'"
proof -
  from advance_loop_returns [OF Single_keys_in_range [OF assms]] obtain x where
    "advance_loop (m_stateChange R) n (m_state s) = Inr x" by blast
  then show ?thesis by (simp add: KMCSingleStateReaction_advanceState_def)
qed




text \<open>
  In a build with assertions \<open>getNu\<close> ends in the assertion of \<open>advanceState\<close> on a
  reaction that consumes a species: firing it on the zeroed state leaves a negative
  population.
\<close>

lemma getNu_assertion_fails:
  "getNu (KMCDual False) \<lparr>m_reactiveState = [7, 3], m_nonReactiveState = [4]\<rparr>
     [KMCDualStateReaction_new [0, 0] [1] [0] 1, KMCDualStateReaction_new [1] [] [] 2] =
     Inl AssertionFailed"
  by (simp add: kmc_eval KMCDualStateReaction_sanityCheck_def)

section \<open>The leap-size bound on two inputs\<close>

text \<open>
  The reactions \<open>X0 \<rightarrow> \<emptyset>\<close> and \<open>X1 \<rightarrow> X0\<close> on the populations \<open>[0, 10]\<close>, with
  \<open>eps = 1\<close>: species 1 is the one reactant with a population above 0, and nothing
  overflows.
\<close>

lemma empty_species_positive:
  "{i \<in> set (concat (map (getReactants KMCSingle)
          [KMCSingleStateReaction_new [0] [] 1, KMCSingleStateReaction_new [1] [0] 1])).
      0 < population KMCSingle
            ([KMCSingleStateReaction_new [0] [] 1, KMCSingleStateReaction_new [1] [0] 1] ! 0) i
            \<lparr>m_state = [0, 10]\<rparr> \<and>
      m_eps (KMCSolver_define []\<lparr>m_eps := 1\<rparr>) *
        real_of_int (population KMCSingle
            ([KMCSingleStateReaction_new [0] [] 1, KMCSingleStateReaction_new [1] [0] 1] ! 0) i
            \<lparr>m_state = [0, 10]\<rparr>) \<le> Real_max} = {1}"
proof -
  have b: "(10::real) \<le> Real_max" by (rule le_Real_max) simp
  show ?thesis using b by (auto simp: kmc_eval KMCSolver_define_def)
qed

lemma empty_species_noOverflow:
  "\<forall>i\<in>set (concat (map (getReactants KMCSingle)
          [KMCSingleStateReaction_new [0] [] 1, KMCSingleStateReaction_new [1] [0] 1])).
     0 < population KMCSingle
           ([KMCSingleStateReaction_new [0] [] 1, KMCSingleStateReaction_new [1] [0] 1] ! 0) i
           \<lparr>m_state = [0, 10]\<rparr> \<longrightarrow>
     (\<Sum>j<length [KMCSingleStateReaction_new [0] [] 1, KMCSingleStateReaction_new [1] [0] 1].
        \<bar>real_of_int (getStateChange KMCSingle
           ([KMCSingleStateReaction_new [0] [] 1, KMCSingleStateReaction_new [1] [0] 1] ! j) i) *
         [0, 10] ! j\<bar>) \<le> Real_max \<and>
     (\<Sum>j<length [KMCSingleStateReaction_new [0] [] 1, KMCSingleStateReaction_new [1] [0] 1].
        \<bar>(real_of_int (getStateChange KMCSingle
           ([KMCSingleStateReaction_new [0] [] 1, KMCSingleStateReaction_new [1] [0] 1] ! j) i))\<^sup>2 *
         [0, 10] ! j\<bar>) \<le> Real_max \<and>
     (\<forall>j<length [KMCSingleStateReaction_new [0] [] 1, KMCSingleStateReaction_new [1] [0] 1].
        (getStateChange KMCSingle
           ([KMCSingleStateReaction_new [0] [] 1, KMCSingleStateReaction_new [1] [0] 1] ! j) i)\<^sup>2
        \<le> T_max) \<and>
     (m_eps (KMCSolver_define []\<lparr>m_eps := 1\<rparr>) *
       real_of_int (population KMCSingle
           ([KMCSingleStateReaction_new [0] [] 1, KMCSingleStateReaction_new [1] [0] 1] ! 0) i
           \<lparr>m_state = [0, 10]\<rparr>) \<le> Real_max \<longrightarrow>
      (max (m_eps (KMCSolver_define []\<lparr>m_eps := 1\<rparr>) *
        real_of_int (population KMCSingle
           ([KMCSingleStateReaction_new [0] [] 1, KMCSingleStateReaction_new [1] [0] 1] ! 0) i
           \<lparr>m_state = [0, 10]\<rparr>) / 4) 1)\<^sup>2 \<le> Real_max)"
proof -
  have b: "(10::real) \<le> Real_max" "(25 / 4 :: real) \<le> Real_max"
    by (rule le_Real_max, simp)+
  show ?thesis
    using b
    by (simp add: kmc_eval KMCSolver_define_def lessThan_Suc numeral_2_eq_2 less_Suc_eq
          power2_eq_square)
qed

text \<open>
  The decay \<open>X0 \<rightarrow> \<emptyset>\<close> on the population \<open>[10]\<close> with the default parameters:
  \<open>eps * 10\<close> is beyond the largest \<open>Real\<close>.
\<close>

lemma default_eps_positive:
  "{i \<in> set (concat (map (getReactants KMCSingle) [KMCSingleStateReaction_new [0] [] 1])).
      0 < population KMCSingle ([KMCSingleStateReaction_new [0] [] 1] ! 0) i \<lparr>m_state = [10]\<rparr> \<and>
      m_eps (KMCSolver_define [KMCSingleStateReaction_new [0] [] 1]) *
        real_of_int (population KMCSingle ([KMCSingleStateReaction_new [0] [] 1] ! 0) i
          \<lparr>m_state = [10]\<rparr>) \<le> Real_max} = {}"
proof -
  have "\<not> Real_max * 10 \<le> Real_max" using Real_max_pos by simp
  then show ?thesis by (auto simp: kmc_eval KMCSolver_define_def)
qed

lemma default_eps_noOverflow:
  "\<forall>i\<in>set (concat (map (getReactants KMCSingle) [KMCSingleStateReaction_new [0] [] 1])).
     0 < population KMCSingle ([KMCSingleStateReaction_new [0] [] 1] ! 0) i \<lparr>m_state = [10]\<rparr> \<longrightarrow>
     (\<Sum>j<length [KMCSingleStateReaction_new [0] [] 1].
        \<bar>real_of_int (getStateChange KMCSingle ([KMCSingleStateReaction_new [0] [] 1] ! j) i) *
         [10] ! j\<bar>) \<le> Real_max \<and>
     (\<Sum>j<length [KMCSingleStateReaction_new [0] [] 1].
        \<bar>(real_of_int (getStateChange KMCSingle ([KMCSingleStateReaction_new [0] [] 1] ! j) i))\<^sup>2 *
         [10] ! j\<bar>) \<le> Real_max \<and>
     (\<forall>j<length [KMCSingleStateReaction_new [0] [] 1].
        (getStateChange KMCSingle ([KMCSingleStateReaction_new [0] [] 1] ! j) i)\<^sup>2 \<le> T_max) \<and>
     (m_eps (KMCSolver_define [KMCSingleStateReaction_new [0] [] 1]) *
       real_of_int (population KMCSingle ([KMCSingleStateReaction_new [0] [] 1] ! 0) i
         \<lparr>m_state = [10]\<rparr>) \<le> Real_max \<longrightarrow>
      (max (m_eps (KMCSolver_define [KMCSingleStateReaction_new [0] [] 1]) *
        real_of_int (population KMCSingle ([KMCSingleStateReaction_new [0] [] 1] ! 0) i
          \<lparr>m_state = [10]\<rparr>) / 4) 1)\<^sup>2 \<le> Real_max)"
proof -
  have b: "(10::real) \<le> Real_max" by (rule le_Real_max) simp
  have big: "\<not> Real_max * 10 \<le> Real_max" using Real_max_pos by simp
  show ?thesis
    using b big
    by (simp add: kmc_eval KMCSolver_define_def power2_eq_square)
qed
section \<open>The claims\<close>

text \<open>
  C5. For every state and reaction list, \<open>partitionReactions\<close> returns the reactions whose
  critical number is below \<open>Ncrit\<close> and the rest, each in list order: together the two
  lists hold every reaction of the input as often as the input does, and no reaction is
  in both.
\<close>

theorem partitionReactions_complete:
  "partitionReactions K S a_state a_reactions =
     (filter (\<lambda>R. computeCriticalNumberOfReactions K R a_state < m_Ncrit S) a_reactions,
      filter (\<lambda>R. \<not> computeCriticalNumberOfReactions K R a_state < m_Ncrit S) a_reactions) \<and>
   mset (fst (partitionReactions K S a_state a_reactions)) +
     mset (snd (partitionReactions K S a_state a_reactions)) = mset a_reactions \<and>
   set (fst (partitionReactions K S a_state a_reactions)) \<inter>
     set (snd (partitionReactions K S a_state a_reactions)) = {}"
  by (auto simp: partitionReactions_filter)


theorem partitionReactions_complete_witness:
  "partitionReactions KMCSingle (KMCSolver_define []\<lparr>m_Ncrit := 3\<rparr>) \<lparr>m_state = [2, 10]\<rparr>
     [KMCSingleStateReaction_new [0] [] 1, KMCSingleStateReaction_new [1] [] 1,
      KMCSingleStateReaction_new [0] [] 1] =
     ([KMCSingleStateReaction_new [0] [] 1, KMCSingleStateReaction_new [0] [] 1],
      [KMCSingleStateReaction_new [1] [] 1]) \<and>
   mset (fst (partitionReactions KMCSingle (KMCSolver_define []\<lparr>m_Ncrit := 3\<rparr>)
          \<lparr>m_state = [2, 10]\<rparr>
          [KMCSingleStateReaction_new [0] [] 1, KMCSingleStateReaction_new [1] [] 1,
           KMCSingleStateReaction_new [0] [] 1])) +
   mset (snd (partitionReactions KMCSingle (KMCSolver_define []\<lparr>m_Ncrit := 3\<rparr>)
          \<lparr>m_state = [2, 10]\<rparr>
          [KMCSingleStateReaction_new [0] [] 1, KMCSingleStateReaction_new [1] [] 1,
           KMCSingleStateReaction_new [0] [] 1])) =
     mset [KMCSingleStateReaction_new [0] [] 1, KMCSingleStateReaction_new [1] [] 1,
           KMCSingleStateReaction_new [0] [] 1]"
proof -
  let ?S = "KMCSolver_define []\<lparr>m_Ncrit := 3\<rparr>"
  let ?s = "\<lparr>m_state = [2, 10]\<rparr>"
  let ?rs = "[KMCSingleStateReaction_new [0] [] 1, KMCSingleStateReaction_new [1] [] 1,
              KMCSingleStateReaction_new [0] [] 1]"
  note inst = partitionReactions_complete [of KMCSingle ?S ?s ?rs]
  have v: "partitionReactions KMCSingle ?S ?s ?rs =
     ([KMCSingleStateReaction_new [0] [] 1, KMCSingleStateReaction_new [0] [] 1],
      [KMCSingleStateReaction_new [1] [] 1])"
    by (subst conjunct1 [OF inst]) (simp add: kmc_eval KMCSolver_define_def)
  show ?thesis by (intro conjI v conjunct1 [OF conjunct2 [OF inst]])
qed

text \<open>
  C8. For a reaction of either class as its constructor leaves it, a state it fits (the
  indices of its species are within the state) whose populations are values of \<open>T\<close>, and a
  firing count \<open>n\<close> of either sign, so in particular a non-negative one, with \<open>n\<close> and
  \<open>- n\<close> values of \<open>T\<close>: \<open>advanceState(state, n)\<close> returns, and
  \<open>advanceState(state, -n)\<close> after it returns the state it started from, entry for entry,
  in the reactive and in the non-reactive populations. For the dual-state class in a
  build with assertions this is for a reaction that has a reactant, which its
  constructor asserts, and a state that is valid before and after the first call, which
  \<open>advanceState\<close> asserts; the single-state class and the builds without assertions
  have no such condition.
\<close>

theorem advanceState_round_trip:
  "(KMCDualStateReaction_constructed R \<and>
    KMCDualStateReaction_sanityCheck R s \<and>
    list_all T_range (m_reactiveState s) \<and>
    list_all T_range (m_nonReactiveState s) \<and>
    T_range n \<and> T_range (- n) \<and>
    (NDEBUG \<or>
     m_lhsReactives R \<noteq> [] \<and> KMCDualState_isValidState s \<and>
     (\<forall>s'. KMCDualStateReaction_advanceState True R s n = Inr s' \<longrightarrow>
           KMCDualState_isValidState s')) \<longrightarrow>
    (\<exists>s'. KMCDualStateReaction_advanceState NDEBUG R s n = Inr s' \<and>
          KMCDualStateReaction_advanceState NDEBUG R s' (- n) = Inr s)) \<and>
   (KMCSingleStateReaction_constructed R1 \<and>
    KMCSingleStateReaction_inRange R1 s1 \<and>
    list_all T_range (m_state s1) \<and>
    T_range n \<and> T_range (- n) \<longrightarrow>
    (\<exists>s1'. KMCSingleStateReaction_advanceState R1 s1 n = Inr s1' \<and>
           KMCSingleStateReaction_advanceState R1 s1' (- n) = Inr s1))"
proof (intro conjI impI)
  assume h: "KMCDualStateReaction_constructed R \<and>
    KMCDualStateReaction_sanityCheck R s \<and>
    list_all T_range (m_reactiveState s) \<and>
    list_all T_range (m_nonReactiveState s) \<and>
    T_range n \<and> T_range (- n) \<and>
    (NDEBUG \<or>
     m_lhsReactives R \<noteq> [] \<and> KMCDualState_isValidState s \<and>
     (\<forall>s'. KMCDualStateReaction_advanceState True R s n = Inr s' \<longrightarrow>
           KMCDualState_isValidState s'))"
  then have c: "KMCDualStateReaction_constructed R"
    and sc: "KMCDualStateReaction_sanityCheck R s"
    and r: "list_all T_range (m_reactiveState s)" "list_all T_range (m_nonReactiveState s)"
    and v: "NDEBUG \<or> KMCDualState_isValidState s \<and>
           (\<forall>s'. KMCDualStateReaction_advanceState True R s n = Inr s' \<longrightarrow>
                 KMCDualState_isValidState s')"
    by blast+
  from Dual_advanceState_returns [OF c sc] obtain s0 where
    s0: "KMCDualStateReaction_advanceState True R s n = Inr s0" by blast
  have first: "KMCDualStateReaction_advanceState NDEBUG R s n = Inr s0"
  proof (cases NDEBUG)
    case True
    with s0 show ?thesis by simp
  next
    case False
    with v s0 have valid: "KMCDualState_isValidState s" "KMCDualState_isValidState s0"
      by blast+
    from s0 have "\<exists>x y. advance_loop (m_reactiveStateChange R) n (m_reactiveState s) = Inr x \<and>
            advance_loop (m_nonReactiveStateChange R) n (m_nonReactiveState s) = Inr y \<and>
            s0 = s\<lparr>m_reactiveState := x, m_nonReactiveState := y\<rparr>"
      by (simp only: Dual_advanceState_Inr)
    with valid sc show ?thesis by (simp only: Dual_advanceState_Inr simp_thms)
  qed
  from Dual_advanceState_inverse [OF first r] first
  show "\<exists>s'. KMCDualStateReaction_advanceState NDEBUG R s n = Inr s' \<and>
             KMCDualStateReaction_advanceState NDEBUG R s' (- n) = Inr s"
    by blast
next
  assume h: "KMCSingleStateReaction_constructed R1 \<and>
    KMCSingleStateReaction_inRange R1 s1 \<and>
    list_all T_range (m_state s1) \<and>
    T_range n \<and> T_range (- n)"
  then have c: "KMCSingleStateReaction_constructed R1"
    and sc: "KMCSingleStateReaction_inRange R1 s1"
    and r: "list_all T_range (m_state s1)"
    by blast+
  from Single_advanceState_returns [OF c sc] obtain s1' where
    first: "KMCSingleStateReaction_advanceState R1 s1 n = Inr s1'" by blast
  from Single_advanceState_inverse [OF first r] first
  show "\<exists>s1'. KMCSingleStateReaction_advanceState R1 s1 n = Inr s1' \<and>
              KMCSingleStateReaction_advanceState R1 s1' (- n) = Inr s1"
    by blast
qed

text \<open>
  On \<open>2 X0 \<rightarrow> X1 + photon\<close> with the populations \<open>[7, 0]\<close> and \<open>[0]\<close>, in a build with
  assertions, and on \<open>X0 \<rightarrow> 2 X1\<close> with the populations \<open>[2, 5]\<close>, whose intermediate
  state has a negative entry: three firings of each.
\<close>

theorem advanceState_round_trip_witness:
  "KMCDualStateReaction_advanceState False (KMCDualStateReaction_new [0, 0] [1] [0] 1)
     \<lparr>m_reactiveState = [7, 0], m_nonReactiveState = [0]\<rparr> 3 =
     Inr \<lparr>m_reactiveState = [1, 3], m_nonReactiveState = [3]\<rparr> \<and>
   KMCDualStateReaction_advanceState False (KMCDualStateReaction_new [0, 0] [1] [0] 1)
     \<lparr>m_reactiveState = [1, 3], m_nonReactiveState = [3]\<rparr> (- 3) =
     Inr \<lparr>m_reactiveState = [7, 0], m_nonReactiveState = [0]\<rparr> \<and>
   KMCSingleStateReaction_advanceState (KMCSingleStateReaction_new [0] [1, 1] 1)
     \<lparr>m_state = [2, 5]\<rparr> 3 = Inr \<lparr>m_state = [- 1, 11]\<rparr> \<and>
   KMCSingleStateReaction_advanceState (KMCSingleStateReaction_new [0] [1, 1] 1)
     \<lparr>m_state = [- 1, 11]\<rparr> (- 3) = Inr \<lparr>m_state = [2, 5]\<rparr>"
proof -
  let ?R = "KMCDualStateReaction_new [0, 0] [1] [0] 1"
  let ?s = "\<lparr>m_reactiveState = [7, 0], m_nonReactiveState = [0]\<rparr>"
  let ?R1 = "KMCSingleStateReaction_new [0] [1, 1] 1"
  let ?s1 = "\<lparr>m_state = [2, 5]\<rparr>"
  have d1: "KMCDualStateReaction_advanceState True ?R ?s 3 =
      Inr \<lparr>m_reactiveState = [1, 3], m_nonReactiveState = [3]\<rparr>"
    by (simp add: kmc_eval KMCDualStateReaction_sanityCheck_def)
  have d2: "KMCDualStateReaction_advanceState False ?R ?s 3 =
      Inr \<lparr>m_reactiveState = [1, 3], m_nonReactiveState = [3]\<rparr>"
    by (simp add: kmc_eval KMCDualStateReaction_sanityCheck_def)
  have e1: "KMCSingleStateReaction_advanceState ?R1 ?s1 3 = Inr \<lparr>m_state = [- 1, 11]\<rparr>"
    by (simp add: kmc_eval)
  have h1: "KMCDualStateReaction_constructed ?R" by (rule Dual_new_constructed)
  have h2: "KMCDualStateReaction_sanityCheck ?R ?s"
    by (simp add: KMCDualStateReaction_sanityCheck_def Dual_new_fields)
  have h3: "list_all T_range (m_reactiveState ?s)" "list_all T_range (m_nonReactiveState ?s)"
    by (simp_all add: T_range_def T_min_def T_max_def)
  have h5: "False \<or>
         m_lhsReactives ?R \<noteq> [] \<and> KMCDualState_isValidState ?s \<and>
         (\<forall>s'. KMCDualStateReaction_advanceState True ?R ?s 3 = Inr s' \<longrightarrow>
               KMCDualState_isValidState s')"
    unfolding d1 by (simp add: KMCDualState_isValidState_def Dual_new_fields)
  have h6: "KMCSingleStateReaction_constructed ?R1" by (rule Single_new_constructed)
  have h7: "KMCSingleStateReaction_inRange ?R1 ?s1"
    by (simp add: KMCSingleStateReaction_inRange_def Single_new_fields)
  have h8: "list_all T_range (m_state ?s1)" by (simp add: T_range_def T_min_def T_max_def)
  have h9: "T_range 3" "T_range (- 3)"
    by (simp_all add: T_range_def T_min_def T_max_def)
  note inst = advanceState_round_trip [of ?R ?s 3 False ?R1 ?s1]
  from inst h1 h2 h3 h5 h9 have "\<exists>s'. KMCDualStateReaction_advanceState False ?R ?s 3 = Inr s' \<and>
      KMCDualStateReaction_advanceState False ?R s' (- 3) = Inr ?s"
    by blast
  then have back_d: "KMCDualStateReaction_advanceState False ?R
      \<lparr>m_reactiveState = [1, 3], m_nonReactiveState = [3]\<rparr> (- 3) = Inr ?s"
    unfolding d2 by simp
  from inst h6 h7 h8 h9 have "\<exists>s1'. KMCSingleStateReaction_advanceState ?R1 ?s1 3 = Inr s1' \<and>
      KMCSingleStateReaction_advanceState ?R1 s1' (- 3) = Inr ?s1"
    by blast
  then have back_s: "KMCSingleStateReaction_advanceState ?R1 \<lparr>m_state = [- 1, 11]\<rparr> (- 3) =
      Inr ?s1"
    unfolding e1 by simp
  show ?thesis by (intro conjI d2 back_d e1 back_s)
qed

text \<open>
  C7. For a reaction as constructed and a state it fits, with every population between
  0 and the largest value of \<open>T\<close>, \<open>computeCriticalNumberOfReactions\<close> is the minimum
  of \<open>floor(population / |nu|)\<close> over the species whose net state change \<open>nu\<close> is
  negative, and the largest value of \<open>T\<close> when there is no such species; in both
  reaction classes.
\<close>

theorem computeCriticalNumberOfReactions_minimum:
  assumes "KMCDualStateReaction_constructed R"
    and "KMCDualStateReaction_sanityCheck R s"
    and "KMCDualState_isValidState s"
    and "list_all (\<lambda>p. p \<le> T_max) (m_reactiveState s)"
    and "KMCSingleStateReaction_constructed R1"
    and "KMCSingleStateReaction_inRange R1 s1"
    and "KMCSingleState_isValidState s1"
    and "list_all (\<lambda>p. p \<le> T_max) (m_state s1)"
  shows "KMCDualStateReaction_computeCriticalNumberOfReactions R s =
     (if {sp. KMCDualStateReaction_getStateChange R sp < 0} = {} then T_max
      else Min ((\<lambda>sp. \<lfloor>real_of_int (m_reactiveState s ! sp) /
                        real_of_int \<bar>KMCDualStateReaction_getStateChange R sp\<bar>\<rfloor>) `
                 {sp. KMCDualStateReaction_getStateChange R sp < 0})) \<and>
   KMCSingleStateReaction_computeCriticalNumberOfReactions R1 s1 =
     (if {sp. KMCSingleStateReaction_getStateChange R1 sp < 0} = {} then T_max
      else Min ((\<lambda>sp. \<lfloor>real_of_int (m_state s1 ! sp) /
                        real_of_int \<bar>KMCSingleStateReaction_getStateChange R1 sp\<bar>\<rfloor>) `
                 {sp. KMCSingleStateReaction_getStateChange R1 sp < 0}))"
proof
  have rng: "list_all (\<lambda>k. k < length (m_reactiveState s)) (map fst (m_reactiveStateChange R))"
    using assms(2) Dual_constructed_maps(3) [OF assms(1)]
    by (auto simp: KMCDualStateReaction_sanityCheck_def list_all_iff)
  from assms(3) have nonneg: "list_all (\<lambda>p. 0 \<le> p) (m_reactiveState s)"
    by (simp add: Dual_isValidState_iff)
  show "KMCDualStateReaction_computeCriticalNumberOfReactions R s =
     (if {sp. KMCDualStateReaction_getStateChange R sp < 0} = {} then T_max
      else Min ((\<lambda>sp. \<lfloor>real_of_int (m_reactiveState s ! sp) /
                        real_of_int \<bar>KMCDualStateReaction_getStateChange R sp\<bar>\<rfloor>) `
                 {sp. KMCDualStateReaction_getStateChange R sp < 0}))"
    unfolding KMCDualStateReaction_computeCriticalNumberOfReactions_def
      KMCDualStateReaction_getStateChange_def
    by (rule critical_loop_Min [OF Dual_constructed_maps(1) [OF assms(1)] rng nonneg assms(4)])
next
  have rng: "list_all (\<lambda>k. k < length (m_state s1)) (map fst (m_stateChange R1))"
    using assms(6) Single_constructed_maps(2) [OF assms(5)]
    by (auto simp: KMCSingleStateReaction_inRange_def list_all_iff)
  from assms(7) have nonneg: "list_all (\<lambda>p. 0 \<le> p) (m_state s1)"
    by (simp add: Single_isValidState_iff)
  show "KMCSingleStateReaction_computeCriticalNumberOfReactions R1 s1 =
     (if {sp. KMCSingleStateReaction_getStateChange R1 sp < 0} = {} then T_max
      else Min ((\<lambda>sp. \<lfloor>real_of_int (m_state s1 ! sp) /
                        real_of_int \<bar>KMCSingleStateReaction_getStateChange R1 sp\<bar>\<rfloor>) `
                 {sp. KMCSingleStateReaction_getStateChange R1 sp < 0}))"
    unfolding KMCSingleStateReaction_computeCriticalNumberOfReactions_def
      KMCSingleStateReaction_getStateChange_def
    by (rule critical_loop_Min [OF Single_constructed_maps(1) [OF assms(5)] rng nonneg assms(8)])
qed

theorem computeCriticalNumberOfReactions_minimum_witness:
  "KMCDualStateReaction_constructed (KMCDualStateReaction_new [0, 0] [1] [] 1) \<and>
   KMCDualStateReaction_sanityCheck (KMCDualStateReaction_new [0, 0] [1] [] 1)
     \<lparr>m_reactiveState = [7, 0], m_nonReactiveState = []\<rparr> \<and>
   KMCDualState_isValidState \<lparr>m_reactiveState = [7, 0], m_nonReactiveState = []\<rparr> \<and>
   list_all (\<lambda>p. p \<le> T_max)
     (m_reactiveState \<lparr>m_reactiveState = [7, 0], m_nonReactiveState = []\<rparr>) \<and>
   KMCSingleStateReaction_constructed (KMCSingleStateReaction_new [0] [1, 1] 1) \<and>
   KMCSingleStateReaction_inRange (KMCSingleStateReaction_new [0] [1, 1] 1) \<lparr>m_state = [2, 5]\<rparr> \<and>
   KMCSingleState_isValidState \<lparr>m_state = [2, 5]\<rparr> \<and>
   list_all (\<lambda>p. p \<le> T_max) (m_state \<lparr>m_state = [2, 5]\<rparr>) \<and>
   KMCDualStateReaction_computeCriticalNumberOfReactions (KMCDualStateReaction_new [0, 0] [1] [] 1)
     \<lparr>m_reactiveState = [7, 0], m_nonReactiveState = []\<rparr> = 3 \<and>
   3 = (if {sp. KMCDualStateReaction_getStateChange (KMCDualStateReaction_new [0, 0] [1] [] 1) sp < 0} = {}
        then T_max
        else Min ((\<lambda>sp. \<lfloor>real_of_int
                (m_reactiveState \<lparr>m_reactiveState = [7, 0], m_nonReactiveState = []\<rparr> ! sp) /
                real_of_int \<bar>KMCDualStateReaction_getStateChange
                  (KMCDualStateReaction_new [0, 0] [1] [] 1) sp\<bar>\<rfloor>) `
              {sp. KMCDualStateReaction_getStateChange
                  (KMCDualStateReaction_new [0, 0] [1] [] 1) sp < 0})) \<and>
   KMCSingleStateReaction_computeCriticalNumberOfReactions
     (KMCSingleStateReaction_new [0] [1, 1] 1) \<lparr>m_state = [2, 5]\<rparr> = 2"
proof -
  let ?R = "KMCDualStateReaction_new [0, 0] [1] [] 1"
  let ?s = "\<lparr>m_reactiveState = [7, 0], m_nonReactiveState = []\<rparr>"
  let ?R1 = "KMCSingleStateReaction_new [0] [1, 1] 1"
  let ?s1 = "\<lparr>m_state = [2, 5]\<rparr>"
  have h1: "KMCDualStateReaction_constructed ?R" by (rule Dual_new_constructed)
  have h2: "KMCDualStateReaction_sanityCheck ?R ?s"
    by (simp add: KMCDualStateReaction_sanityCheck_def Dual_new_fields)
  have h3: "KMCDualState_isValidState ?s" by (simp add: KMCDualState_isValidState_def)
  have h4: "list_all (\<lambda>p. p \<le> T_max) (m_reactiveState ?s)" by (simp add: T_max_def)
  have h5: "KMCSingleStateReaction_constructed ?R1" by (rule Single_new_constructed)
  have h6: "KMCSingleStateReaction_inRange ?R1 ?s1"
    by (simp add: KMCSingleStateReaction_inRange_def Single_new_fields)
  have h7: "KMCSingleState_isValidState ?s1" by (simp add: KMCSingleState_isValidState_def)
  have h8: "list_all (\<lambda>p. p \<le> T_max) (m_state ?s1)" by (simp add: T_max_def)
  have v: "KMCDualStateReaction_computeCriticalNumberOfReactions ?R ?s = 3"
    by (simp add: kmc_eval)
  have v1: "KMCSingleStateReaction_computeCriticalNumberOfReactions ?R1 ?s1 = 2"
    by (simp add: kmc_eval)
  note inst = computeCriticalNumberOfReactions_minimum [OF h1 h2 h3 h4 h5 h6 h7 h8]
  note eq = trans [OF v [symmetric] conjunct1 [OF inst]]
  show ?thesis by (intro conjI h1 h2 h3 h4 h5 h6 h7 h8 v v1 eq)
qed





text \<open>
  C4, as stated, fails: with the propensity vector \<open>[-1]\<close> and the draw \<open>u = 1/2\<close> the
  total is \<open>-1\<close>, the only cumulative sum \<open>-1\<close> is below \<open>u * A = -1/2\<close>, the search
  leaves \<open>r\<close> at \<open>numeric_limits<size_t>::max()\<close> and no reaction of the list is fired.
\<close>

theorem stepSSA_negative_propensity_counterexample:
  "stepSSA KMCSingle \<lparr>m_state = [5]\<rparr> [KMCSingleStateReaction_new [0] [] 1] [- 1]
     (constant_rng (1 / 2) 0) = Inl OutOfRange"
  by (simp add: stepSSA_def getUniformReal01_def constant_rng_def)

text \<open>
  C4, amended. For every non-empty reaction list, every state, every propensity vector of
  the same length whose entries are all at least 0, and a draw \<open>u\<close> of at most 1, one
  call of \<open>stepSSA\<close> returns the state advanced by one firing of one reaction (it is
  one call of \<open>advanceState\<close> with the count 1, and ends as that call ends), and that
  reaction is the first in list order whose cumulative propensity sum is at least
  \<open>u * totalPropensity\<close>; when the propensities sum to zero it is the first reaction
  of the list.
\<close>

theorem stepSSA_fires_first_reaction_reaching_threshold:
  assumes "0 < length a_reactions"
    and "length a_propensities = length a_reactions"
    and "list_all (\<lambda>p. 0 \<le> p) a_propensities"
    and "uniformReal01 rng (numUniform rng) \<le> 1"
  shows "\<exists>r<length a_reactions.
     stepSSA K a_state a_reactions a_propensities rng =
       (case advanceState K (a_reactions ! r) a_state 1 of
          Inl e \<Rightarrow> Inl e
        | Inr a_state' \<Rightarrow> Inr (a_state', snd (getUniformReal01 rng))) \<and>
     uniformReal01 rng (numUniform rng) * sum_list a_propensities
       \<le> sum_list (take (Suc r) a_propensities) \<and>
     (\<forall>i<r. sum_list (take (Suc i) a_propensities)
              < uniformReal01 rng (numUniform rng) * sum_list a_propensities) \<and>
     (sum_list a_propensities = 0 \<longrightarrow> r = 0)"
proof -
  let ?n = "length a_reactions"
  let ?u = "uniformReal01 rng (numUniform rng)"
  let ?A = "sum_list a_propensities"
  have A: "fold (\<lambda>i A. A + a_propensities ! i) [0..<?n] 0 = ?A"
    using fold_add_nth_sum_list [of ?n a_propensities 0] assms(2) by simp
  from assms(3) have A0: "0 \<le> ?A" by (auto simp: list_all_iff intro: sum_list_nonneg)
  with assms(4) have uA: "?u * ?A \<le> ?A"
    using mult_right_mono [of ?u 1 ?A] by simp
  have step: "stepSSA K a_state a_reactions a_propensities rng =
      (case stepSSA_search ?n 0 a_propensities (?u * ?A) 0 of
         None \<Rightarrow> Inl OutOfRange
       | Some r \<Rightarrow>
           (case advanceState K (a_reactions ! r) a_state 1 of
              Inl e \<Rightarrow> Inl e
            | Inr a_state' \<Rightarrow> Inr (a_state', snd (getUniformReal01 rng))))"
    using assms(1)
    by (simp add: stepSSA_def Let_def A getUniformReal01_def split: option.split sum.split)
  show ?thesis
  proof (cases "stepSSA_search ?n 0 a_propensities (?u * ?A) 0")
    case None
    from stepSSA_search_None [OF None assms(1)]
    have "(\<Sum>k = 0..<?n. a_propensities ! k) < ?u * ?A" by simp
    moreover have "(\<Sum>k = 0..<?n. a_propensities ! k) = ?A"
      using assms(2) by (simp add: sum_list_sum_nth)
    ultimately show ?thesis using uA by simp
  next
    case (Some r)
    from stepSSA_search_Some [OF Some]
    have r: "r < ?n" and reach: "?u * ?A \<le> (\<Sum>k = 0..r. a_propensities ! k)"
      and first: "\<forall>k. k < r \<longrightarrow> (\<Sum>j = 0..k. a_propensities ! j) < ?u * ?A"
      by simp_all
    have reach': "?u * ?A \<le> sum_list (take (Suc r) a_propensities)"
      using reach r assms(2) by (simp add: sum_atMost_take)
    have first': "\<forall>i<r. sum_list (take (Suc i) a_propensities) < ?u * ?A"
    proof (intro allI impI)
      fix i assume i: "i < r"
      with first have "(\<Sum>j = 0..i. a_propensities ! j) < ?u * ?A" by blast
      with i r assms(2) show "sum_list (take (Suc i) a_propensities) < ?u * ?A"
        by (simp add: sum_atMost_take)
    qed
    have zero: "r = 0" if z: "?A = 0"
    proof (rule ccontr)
      assume "r \<noteq> 0"
      then have "0 < r" by simp
      with first' have lt: "sum_list (take (Suc 0) a_propensities) < ?u * ?A" by blast
      from assms(3) have "0 \<le> sum_list (take (Suc 0) a_propensities)"
        by (intro sum_list_nonneg) (auto simp: list_all_iff dest: in_set_takeD)
      with lt z show False by simp
    qed
    from r step Some reach' first' zero show ?thesis by auto
  qed
qed

theorem stepSSA_fires_first_reaction_reaching_threshold_witness:
  "0 < length [KMCSingleStateReaction_new [0] [] 1, KMCSingleStateReaction_new [1] [] 1] \<and>
   length [0, 5 :: real] = length [KMCSingleStateReaction_new [0] [] 1, KMCSingleStateReaction_new [1] [] 1] \<and>
   list_all (\<lambda>p. 0 \<le> p) [0, 5 :: real] \<and>
   stepSSA KMCSingle \<lparr>m_state = [0, 5]\<rparr>
     [KMCSingleStateReaction_new [0] [] 1, KMCSingleStateReaction_new [1] [] 1] [0, 5]
     \<lparr>uniformReal01 = (\<lambda>k. 1 / 2), poisson = (\<lambda>k mean. 0), numUniform = 0, numPoisson = 0\<rparr> =
   Inr (\<lparr>m_state = [0, 4]\<rparr>,
     \<lparr>uniformReal01 = (\<lambda>k. 1 / 2), poisson = (\<lambda>k mean. 0), numUniform = 1, numPoisson = 0\<rparr>)"
proof -
  let ?rs = "[KMCSingleStateReaction_new [0] [] 1, KMCSingleStateReaction_new [1] [] 1]"
  let ?ps = "[0, 5 :: real]"
  let ?rng = "\<lparr>uniformReal01 = (\<lambda>k. 1 / 2), poisson = (\<lambda>k mean. 0), numUniform = 0, numPoisson = 0\<rparr>"
  let ?s = "\<lparr>m_state = [0, 5]\<rparr>"
  have h1: "0 < length ?rs" by simp
  have h2: "length ?ps = length ?rs" by simp
  have h3: "list_all (\<lambda>p. 0 \<le> p) ?ps" by simp
  have h4: "uniformReal01 ?rng (numUniform ?rng) \<le> 1" by simp
  from stepSSA_fires_first_reaction_reaching_threshold [OF h1 h2 h3 h4, of KMCSingle ?s]
  obtain r where r: "r < length ?rs"
    and fired: "stepSSA KMCSingle ?s ?rs ?ps ?rng =
       (case advanceState KMCSingle (?rs ! r) ?s 1 of
          Inl e \<Rightarrow> Inl e
        | Inr a_state' \<Rightarrow> Inr (a_state', snd (getUniformReal01 ?rng)))"
    and reach: "uniformReal01 ?rng (numUniform ?rng) * sum_list ?ps \<le> sum_list (take (Suc r) ?ps)"
    by blast
  from r have "r = 0 \<or> r = 1" by auto
  with reach have "r = 1" by auto
  with fired have v: "stepSSA KMCSingle ?s ?rs ?ps ?rng =
     Inr (\<lparr>m_state = [0, 4]\<rparr>,
       \<lparr>uniformReal01 = (\<lambda>k. 1 / 2), poisson = (\<lambda>k mean. 0), numUniform = 1, numPoisson = 0\<rparr>)"
    by (simp add: kmc_eval getUniformReal01_def)
  show ?thesis by (intro conjI h1 h2 h3 v)
qed

text \<open>
  C6, as stated, fails. Species 0 has population 0 and is the reactant of the first
  reaction and the product of the second, whose propensity is 10: the bound the
  specification gives it is \<open>1 / 10\<close>. The code skips every species whose population
  is not above 0, and returns the bound \<open>1 / 4\<close> of species 1.
\<close>

theorem getNonCriticalTimeStep_skips_empty_species_counterexample:
  "getNonCriticalTimeStep KMCSingle (KMCSolver_define []\<lparr>m_eps := 1\<rparr>) \<lparr>m_state = [0, 10]\<rparr>
     [KMCSingleStateReaction_new [0] [] 1, KMCSingleStateReaction_new [1] [0] 1] [0, 10] =
     Finite (1 / 4) \<and>
   spec_nonCriticalTimeStep KMCSingle (KMCSolver_define []\<lparr>m_eps := 1\<rparr>) \<lparr>m_state = [0, 10]\<rparr>
     [KMCSingleStateReaction_new [0] [] 1, KMCSingleStateReaction_new [1] [0] 1] [0, 10] = 1 / 10 \<and>
   propensities KMCSingle \<lparr>m_state = [0, 10]\<rparr>
     [KMCSingleStateReaction_new [0] [] 1, KMCSingleStateReaction_new [1] [0] 1] = [0, 10]"
proof (intro conjI)
  show "getNonCriticalTimeStep KMCSingle (KMCSolver_define []\<lparr>m_eps := 1\<rparr>) \<lparr>m_state = [0, 10]\<rparr>
     [KMCSingleStateReaction_new [0] [] 1, KMCSingleStateReaction_new [1] [0] 1] [0, 10] =
     Finite (1 / 4)"
    apply (subst getNonCriticalTimeStep_exact [OF empty_species_noOverflow])
    apply (simp only: empty_species_positive)
    apply (simp add: kmc_eval KMCSolver_define_def lessThan_Suc numeral_2_eq_2 Real_eval)
    done
  show "spec_nonCriticalTimeStep KMCSingle (KMCSolver_define []\<lparr>m_eps := 1\<rparr>) \<lparr>m_state = [0, 10]\<rparr>
     [KMCSingleStateReaction_new [0] [] 1, KMCSingleStateReaction_new [1] [0] 1] [0, 10] = 1 / 10"
    by (simp add: spec_nonCriticalTimeStep_def spec_speciesBound_def kmc_eval
          KMCSolver_define_def lessThan_Suc numeral_2_eq_2 Real_eval)
  show "propensities KMCSingle \<lparr>m_state = [0, 10]\<rparr>
     [KMCSingleStateReaction_new [0] [] 1, KMCSingleStateReaction_new [1] [0] 1] = [0, 10]"
    by (simp add: propensities_def kmc_eval)
qed

text \<open>
  C6, amended. For every state, every list of non-critical reactions that fit it and
  every vector of as many propensities, \<open>getNonCriticalTimeStep\<close> returns the minimum
  of the largest \<open>Real\<close> and of \<open>min(dt1, dt2)\<close> over the species that are reactants
  of a reaction of the list, have a population \<open>X_i\<close> above 0 and a product
  \<open>eps * X_i\<close> that does not exceed the largest \<open>Real\<close>, where \<open>dt1 = f / mu\<close> when
  \<open>mu\<close> exceeds the smallest positive normal \<open>Real\<close> and \<open>dt2 = f^2 / sigma2\<close> when
  \<open>sigma2\<close> does, each being the largest \<open>Real\<close> otherwise, with \<open>mu\<close> the sum of
  \<open>|nu_ij * a_j|\<close> and \<open>sigma2\<close> the sum of \<open>|nu_ij^2 * a_j|\<close> over the reactions
  \<open>j\<close> of the list, and \<open>f = max(eps * X_i / 4, 1)\<close>; this provided that, for each
  reactant species with a population above 0, \<open>mu\<close> and \<open>sigma2\<close> do not exceed the
  largest \<open>Real\<close>, no \<open>nu_ij^2\<close> exceeds the largest \<open>T\<close>, and \<open>f^2\<close> does not exceed
  the largest \<open>Real\<close> where \<open>eps * X_i\<close> does not. (A product \<open>eps * X_i\<close> beyond the
  largest \<open>Real\<close> is an infinity, and so are \<open>f\<close> and the two quotients: the species
  gives no bound. With the default \<open>eps\<close>, the largest \<open>Real\<close>, that is every species
  with a population of 2 or more.)
\<close>

theorem getNonCriticalTimeStep_minimum:
  assumes "length a = length rs"
    and "list_all (\<lambda>R. inRange K R a_state) rs"
    and "\<forall>i\<in>set (concat (map (getReactants K) rs)). 0 < population K (rs ! 0) i a_state \<longrightarrow>
       (\<Sum>j<length rs. \<bar>real_of_int (getStateChange K (rs ! j) i) * a ! j\<bar>) \<le> Real_max \<and>
       (\<Sum>j<length rs. \<bar>(real_of_int (getStateChange K (rs ! j) i))\<^sup>2 * a ! j\<bar>) \<le> Real_max \<and>
       (\<forall>j<length rs. (getStateChange K (rs ! j) i)\<^sup>2 \<le> T_max) \<and>
       (m_eps S * real_of_int (population K (rs ! 0) i a_state) \<le> Real_max \<longrightarrow>
        (max (m_eps S * real_of_int (population K (rs ! 0) i a_state) / 4) 1)\<^sup>2 \<le> Real_max)"
  shows "getNonCriticalTimeStep K S a_state rs a =
     Finite (Min (insert Real_max
       ((\<lambda>i. min
          (if Real_min < (\<Sum>j<length rs. \<bar>real_of_int (getStateChange K (rs ! j) i) * a ! j\<bar>)
           then max (m_eps S * real_of_int (population K (rs ! 0) i a_state) / 4) 1 /
                (\<Sum>j<length rs. \<bar>real_of_int (getStateChange K (rs ! j) i) * a ! j\<bar>)
           else Real_max)
          (if Real_min < (\<Sum>j<length rs. \<bar>(real_of_int (getStateChange K (rs ! j) i))\<^sup>2 * a ! j\<bar>)
           then (max (m_eps S * real_of_int (population K (rs ! 0) i a_state) / 4) 1)\<^sup>2 /
                (\<Sum>j<length rs. \<bar>(real_of_int (getStateChange K (rs ! j) i))\<^sup>2 * a ! j\<bar>)
           else Real_max)) `
        {i \<in> set (concat (map (getReactants K) rs)).
           0 < population K (rs ! 0) i a_state \<and>
           m_eps S * real_of_int (population K (rs ! 0) i a_state) \<le> Real_max})))"
  by (rule getNonCriticalTimeStep_exact [OF assms(3)])

text \<open>
  On the two reactions above with \<open>eps = 1\<close>, where species 1 alone gives a bound, and
  on one decay with the population 10 and the default parameters, where no species does.
\<close>

theorem getNonCriticalTimeStep_minimum_witness:
  "getNonCriticalTimeStep KMCSingle (KMCSolver_define []\<lparr>m_eps := 1\<rparr>) \<lparr>m_state = [0, 10]\<rparr>
     [KMCSingleStateReaction_new [0] [] 1, KMCSingleStateReaction_new [1] [0] 1] [0, 10] =
     Finite (1 / 4) \<and>
   getNonCriticalTimeStep KMCSingle (KMCSolver_define [KMCSingleStateReaction_new [0] [] 1])
     \<lparr>m_state = [10]\<rparr> [KMCSingleStateReaction_new [0] [] 1] [10] = Finite Real_max"
proof -
  let ?S = "KMCSolver_define []\<lparr>m_eps := 1\<rparr>"
  let ?s = "\<lparr>m_state = [0, 10]\<rparr>"
  let ?rs = "[KMCSingleStateReaction_new [0] [] 1, KMCSingleStateReaction_new [1] [0] 1]"
  let ?rs' = "[KMCSingleStateReaction_new [0] [] 1]"
  have len: "length [0, 10 :: real] = length ?rs" "length [10 :: real] = length ?rs'"
    by simp_all
  have fit: "list_all (\<lambda>R. inRange KMCSingle R ?s) ?rs"
    "list_all (\<lambda>R. inRange KMCSingle R \<lparr>m_state = [10]\<rparr>) ?rs'"
    by (simp_all add: KMCSingle_def KMCSingleStateReaction_inRange_def Single_new_fields)
  have v: "getNonCriticalTimeStep KMCSingle ?S ?s ?rs [0, 10] = Finite (1 / 4)"
    apply (subst getNonCriticalTimeStep_minimum [OF len(1) fit(1) empty_species_noOverflow])
    apply (simp only: empty_species_positive)
    apply (simp add: kmc_eval KMCSolver_define_def lessThan_Suc numeral_2_eq_2 Real_eval)
    done
  have v': "getNonCriticalTimeStep KMCSingle (KMCSolver_define ?rs') \<lparr>m_state = [10]\<rparr> ?rs' [10] =
      Finite Real_max"
    apply (subst getNonCriticalTimeStep_minimum [OF len(2) fit(2) default_eps_noOverflow])
    apply (simp only: default_eps_positive)
    apply simp
    done
  show ?thesis by (intro conjI v v')
qed

text \<open>
  C9 fails for \<open>advanceTau\<close>. \<open>advanceHybrid\<close> ends in \<open>MayDay::Error\<close> on a selector it
  does not know, whatever its other arguments; the \<open>default\<close> branch of the \<open>switch\<close>
  in \<open>advanceTau\<close> is empty, so the trial state is the unchanged, valid state, the loop
  accepts it as a step of the whole \<open>a_dt\<close>, and the call returns the state as it was.
\<close>

theorem advanceTau_unrecognized_propagator_returns_silently:
  "advanceTau (Suc (Suc fuel)) KMCSingle dgesv S \<lparr>m_state = [5]\<rparr>
     [KMCSingleStateReaction_new [0] [] 1] 1 Unrecognized rng =
     Some (Inr (\<lparr>m_state = [5]\<rparr>, rng)) \<and>
   advanceHybrid (Suc (Suc fuel)) KMCSingle dgesv S \<lparr>m_state = [5]\<rparr>
     [KMCSingleStateReaction_new [0] [] 1] 1 Unrecognized rng = Some (Inl MayDay_Error)"
  by (simp add: advanceTau_def advanceTau_step_def advanceHybrid_def
        KMCSingle_def KMCSingleState_isValidState_def)

theorem advanceTau_unrecognized_propagator_returns_silently_witness:
  "advanceTau 2 KMCSingle (\<lambda>N J F. (F, 0)) (KMCSolver_define []) \<lparr>m_state = [5]\<rparr>
     [KMCSingleStateReaction_new [0] [] 1] 1 Unrecognized
     \<lparr>uniformReal01 = (\<lambda>k. 1 / 2), poisson = (\<lambda>k mean. 0), numUniform = 0, numPoisson = 0\<rparr> =
     Some (Inr (\<lparr>m_state = [5]\<rparr>,
       \<lparr>uniformReal01 = (\<lambda>k. 1 / 2), poisson = (\<lambda>k mean. 0), numUniform = 0, numPoisson = 0\<rparr>))"
  using advanceTau_unrecognized_propagator_returns_silently
    [of 0 "\<lambda>N J F. (F, 0)" "KMCSolver_define []"
        "\<lparr>uniformReal01 = (\<lambda>k. 1 / 2), poisson = (\<lambda>k mean. 0), numUniform = 0, numPoisson = 0\<rparr>"]
  by (simp add: numeral_2_eq_2)

text \<open>
  C1 fails for \<open>advanceHybrid\<close>. The SSA branch of the hybrid loop fires reactions on
  \<open>a_state\<close> itself, not on the trial copy, and sets \<open>validStep = true\<close> without looking
  at the state. On the two decays with populations \<open>[0, 5]\<close> and \<open>a_dt = 1/8\<close>, the
  uniform draw \<open>u = 0\<close> makes \<open>stepSSA\<close> fire the first reaction, whose propensity is 0
  (its cumulative sum 0 reaches \<open>u * A = 0\<close>), and the call returns with population
  \<open>- 1\<close> for species 0. (\<open>advanceTau\<close> only returns states that passed
  \<open>isValidState\<close>: lemma \<open>advanceTau_returns_valid_state\<close>.)
\<close>

theorem advanceHybrid_commits_negative_population:
  "advanceHybrid (Suc (Suc fuel)) KMCSingle dgesv hybrid_solver \<lparr>m_state = [0, 5]\<rparr>
     hybrid_reactions (1 / 8) ExplicitEuler (hybrid_rng 0) =
     Some (Inr (\<lparr>m_state = [- 1, 5]\<rparr>, hybrid_rng 4)) \<and>
   KMCSingleState_isValidState \<lparr>m_state = [0, 5]\<rparr> \<and>
   \<not> KMCSingleState_isValidState \<lparr>m_state = [- 1, 5]\<rparr>"
proof -
  have run: "advanceHybrid (Suc (Suc fuel)) KMCSingle dgesv hybrid_solver \<lparr>m_state = [0, 5]\<rparr>
      hybrid_reactions (1 / 8) ExplicitEuler (hybrid_rng 0) =
      Some (Inr (\<lparr>m_state = [- 1, 5]\<rparr>, hybrid_rng 4))"
    unfolding advanceHybrid_def advanceHybrid_function_def
    apply (simp only: KMCLeapPropagator.case advanceHybrid_loop.simps)
    apply (simp only: hybrid_partition fst_conv snd_conv hybrid_propensities Let_def
             hybrid_getCriticalTimeStep_propensities split_conv hybrid_dtNonCrit)
    apply (simp add: std_min_def hybrid_bounds hybrid_bounds [simplified] hybrid_propensities
             hybrid_solver_fields hybrid_SSA_first Let_def del: advanceHybrid_SSA.simps)
    done
  show ?thesis
    by (intro conjI run) (simp_all add: KMCSingleState_isValidState_def)
qed

theorem advanceHybrid_commits_negative_population_witness:
  "advanceHybrid 2 KMCSingle dgesv_1x1 hybrid_solver \<lparr>m_state = [0, 5]\<rparr>
     hybrid_reactions (1 / 8) ExplicitEuler (hybrid_rng 0) =
     Some (Inr (\<lparr>m_state = [- 1, 5]\<rparr>, hybrid_rng 4))"
  using advanceHybrid_commits_negative_population [of 0 dgesv_1x1]
  by (simp add: numeral_2_eq_2)

text \<open>
  C3 fails. The flag \<open>converged\<close> of \<open>stepImplicitEuler\<close> starts true and is cleared only
  when \<open>dgesv\<close> reports a failure; when the loop ends because \<open>maxIter\<close> iterations have
  run, the last iterate is rounded and written to the state as if it had converged. On
  the decay \<open>X0 \<rightarrow> \<emptyset>\<close> with population 10 and \<open>dt = 1\<close>, for every iteration cap of at
  least 1 (the default 100 among them), the step returns the population 7 or 8, not the
  sentinel \<open>- 1\<close>, from an iterate whose residual relative to the initial residual is
  at least \<open>1/30\<close>, above \<open>exitTol = 1e-6\<close>.
\<close>

theorem stepImplicitEuler_returns_unconverged_iterate:
  "\<exists>x. stepImplicitEuler 2 KMCSingle dgesv_1x1 (implicit_solver (int (Suc k))) \<lparr>m_state = [10]\<rparr>
          implicit_reactions 1 (implicit_rng 0) =
          Some (Inr (\<lparr>m_state = [llround x]\<rparr>, implicit_rng 1)) \<and>
        (llround x = 7 \<or> llround x = 8) \<and>
        implicitEuler_newton (Suc k) KMCSingle dgesv_1x1 (implicit_solver (int (Suc k)))
          \<lparr>m_state = [10]\<rparr> [[- 1]] 1 1 1 [15] 15 [5] = ([x], True) \<and>
        m_exitTol (implicit_solver (int (Suc k))) <
          implicitEuler_computeNorm KMCSingle (implicit_solver (int (Suc k))) \<lparr>m_state = [10]\<rparr>
            [[- 1]] 1 1 1 [x] [15] / 15"
proof -
  let ?S = "implicit_solver (int (Suc k))"
  have start: "(29 / 4 :: real) \<le> 15 / 2" "(15 / 2 :: real) \<le> 31 / 4" by simp_all
  from implicit_newton_invariant [OF start, of k "int (Suc k)"] obtain x where
    x: "29 / 4 \<le> x" "x \<le> 31 / 4"
    and n: "implicitEuler_newton k KMCSingle dgesv_1x1 ?S \<lparr>m_state = [10]\<rparr>
       [[- 1]] (Suc 0) (Suc 0) 1 [15] 15 [15 / 2] = ([x], True)"
    by blast
  have newton: "implicitEuler_newton (Suc k) KMCSingle dgesv_1x1 ?S \<lparr>m_state = [10]\<rparr>
       [[- 1]] (Suc 0) (Suc 0) 1 [15] 15 [5] = ([x], True)"
    by (simp only: implicit_newton_first n)
  have "nat (int (Suc k)) = Suc k" by simp
  with newton have "implicitEuler_newton (nat (int (Suc k))) KMCSingle dgesv_1x1 ?S
       \<lparr>m_state = [10]\<rparr> [[- 1]] (Suc 0) (Suc 0) 1 [15] 15 [5] = ([x], True)"
    by (simp only:)
  note step = implicit_step_unfold [OF this]
  from implicit_residual [OF x, of "int (Suc k)"]
  have round: "llround x = 7 \<or> llround x = 8"
    and res: "1 / 30 \<le> implicitEuler_computeNorm KMCSingle ?S \<lparr>m_state = [10]\<rparr> [[- 1]]
        (Suc 0) (Suc 0) 1 [x] [15] / 15"
    by simp_all
  have "m_exitTol ?S < 1 / 30" by (simp add: implicit_solver_fields)
  from this res have tol: "m_exitTol ?S < implicitEuler_computeNorm KMCSingle ?S \<lparr>m_state = [10]\<rparr>
        [[- 1]] (Suc 0) (Suc 0) 1 [x] [15] / 15"
    by (rule less_le_trans)
  show ?thesis
    unfolding One_nat_def
    by (rule exI [of _ x]) (intro conjI step [unfolded One_nat_def] round newton tol)
qed

theorem stepImplicitEuler_returns_unconverged_iterate_default:
  "implicit_solver (int (Suc 99)) = KMCSolver_define implicit_reactions \<and>
   (\<exists>x. stepImplicitEuler 2 KMCSingle dgesv_1x1 (KMCSolver_define implicit_reactions)
          \<lparr>m_state = [10]\<rparr> implicit_reactions 1 (implicit_rng 0) =
          Some (Inr (\<lparr>m_state = [llround x]\<rparr>, implicit_rng 1)) \<and>
        (llround x = 7 \<or> llround x = 8) \<and>
        m_exitTol (KMCSolver_define implicit_reactions) <
          implicitEuler_computeNorm KMCSingle (KMCSolver_define implicit_reactions)
            \<lparr>m_state = [10]\<rparr> [[- 1]] 1 1 1 [x] [15] / 15)"
proof -
  have d: "implicit_solver (int (Suc 99)) = KMCSolver_define implicit_reactions"
    using implicit_solver_default by simp
  from stepImplicitEuler_returns_unconverged_iterate [of 99]
  show ?thesis unfolding d by blast
qed


end
